theory Spec2Isabelle
  imports Complex_Main "HOL-Library.AList" "HOL-Library.Sublist"
begin

section \<open>Data model shared by the retrieval pipeline\<close>

text \<open>
  The pipeline is Python. Its values are modelled as follows.
  \<^item> A Python \<open>str\<close> is a \<^typ>\<open>string\<close>; one \<^typ>\<open>char\<close> stands for one code point,
    so the model covers the code points below 256.
  \<^item> A Python \<open>float\<close> is a \<^typ>\<open>real\<close>. Where a statement depends on the
    rounding of float arithmetic (rank fusion, cosine similarity), the rounding is a
    parameter of the functions that compute, and the cosine similarity has the
    infinities and NaN as well; elsewhere sums, quotients and comparisons are the exact
    ones.
  \<^item> A Python \<open>int\<close> is an \<^typ>\<open>int\<close>.
  \<^item> A \<open>dict\<close> with string keys is an association list in insertion order
    (\<^const>\<open>map_of\<close> looks a key up, \<^const>\<open>AList.update\<close> stores a value: an existing key
    keeps its position, a new key goes to the end, as in Python).
  \<^item> A raised exception is the left injection of a sum type.
\<close>

datatype pyval = VFloat real | VInt int | VStr string | VBool bool

type_synonym pydict = "(string \<times> pyval) list"

text \<open>\<open>langchain.schema.Document\<close>: the text and its metadata dictionary.\<close>

record Document =
  page_content :: string
  metadata :: pydict

text \<open>
  The exceptions are those of class \<open>Exception\<close>, which is what \<open>except Exception\<close>
  catches. \<open>Exception msg\<close> stands for any other error of that class, such as the errors
  of the HTTP clients and of the storage engine.
\<close>

datatype exn =
    ZeroDivisionError
  | KeyError
  | IndexError
  | AttributeError
  | ValueError
  | OperationalError string
  | Exception string

text \<open>
  The message of an exception, \<open>str(error)\<close>. Only the messages of the storage errors
  are read by the code; those of the built-in errors are placeholders without the text
  that the schema repair looks for.
\<close>

fun str_of_exn :: "exn \<Rightarrow> string" where
  "str_of_exn ZeroDivisionError = ''float division by zero''"
| "str_of_exn KeyError = ''''"
| "str_of_exn IndexError = ''list index out of range''"
| "str_of_exn AttributeError = ''object has no attribute''"
| "str_of_exn ValueError = ''shapes not aligned''"
| "str_of_exn (OperationalError msg) = msg"
| "str_of_exn (Exception msg) = msg"

text \<open>
  A ranked result is the dictionary \<open>{'document': ..., 'score': ..., 'rank': ...}\<close> that
  every ranking stage produces. The fusion stage reads \<open>'rank'\<close> and \<open>'score'\<close> with
  \<open>dict.get\<close>, so both may be absent; \<open>'document'\<close> is read with \<open>[...]\<close> and is always there.
\<close>

record ranked_result =
  document :: Document
  score :: "real option"
  rank :: "int option"

subsection \<open>Python list primitives\<close>

text \<open>\<open>xs[:n]\<close>: the first \<open>n\<close> elements, or all but the last \<open>-n\<close> when \<open>n\<close> is negative.\<close>

definition py_take :: "int \<Rightarrow> 'a list \<Rightarrow> 'a list" where
  "py_take n xs =
     (if 0 \<le> n then take (nat n) xs else take (nat (int (length xs) + n)) xs)"

text \<open>\<open>xs[i]\<close>: a negative index counts from the end, an index out of range raises.\<close>

definition py_index :: "'a list \<Rightarrow> int \<Rightarrow> exn + 'a" where
  "py_index xs i =
     (if 0 \<le> i \<and> i < int (length xs) then Inr (xs ! nat i)
      else if i < 0 \<and> - int (length xs) \<le> i then Inr (xs ! nat (int (length xs) + i))
      else Inl IndexError)"

text \<open>
  Python's \<open>hash\<close> of a string is salted per process and is not part of the repository; the
  functions that call it take it as the parameter \<open>hash\<close>. The function below is one
  instance, used to run the model on concrete inputs.
\<close>

definition demo_hash :: "string \<Rightarrow> int" where
  "demo_hash s = foldl (\<lambda>h c. (31 * h + int (of_char c)) mod 4294967296) 0 s"

subsection \<open>Float rounding\<close>

text \<open>Rounding to the nearest integer, ties to the even one.\<close>

definition nearest_even :: "real \<Rightarrow> int" where
  "nearest_even m =
     (let f = \<lfloor>m\<rfloor>
      in if m - of_int f < 1 / 2 then f
         else if 1 / 2 < m - of_int f then f + 1
         else if even f then f else f + 1)"

text \<open>
  IEEE 754 double precision, round to nearest even: 53 significant bits, and below
  \<open>2^-1022\<close> the fixed spacing \<open>2^-1074\<close> of the subnormal numbers, so that a small result
  can round to zero.
\<close>

definition binary64 :: "real \<Rightarrow> real" where
  "binary64 x =
     (if x = 0 then 0
      else
        (let e = max (\<lfloor>log 2 \<bar>x\<bar>\<rfloor> - 52) (- 1074)
         in of_int (nearest_even (x / 2 powr of_int e)) * 2 powr of_int e))"

section \<open>Python string primitives\<close>

text \<open>
  The methods of \<open>str\<close> that the repository calls, on code points below 256.
  \<open>str.isspace\<close>: tab to carriage return, the four separators 28 to 31, the space,
  NEL (133) and the no-break space (160).
\<close>

definition isspace :: "char \<Rightarrow> bool" where
  "isspace c =
     (let n = (of_char c :: nat)
      in (9 \<le> n \<and> n \<le> 13) \<or> (28 \<le> n \<and> n \<le> 32) \<or> n = 133 \<or> n = 160)"

text \<open>
  \<open>str.isalnum\<close>: the ASCII digits and letters; of Latin-1, the letters (192 to 255 but
  the two operators 215 and 247, and 170, 181, 186), the superscript digits (178, 179,
  185) and the fractions (188 to 190).
\<close>

definition isalnum :: "char \<Rightarrow> bool" where
  "isalnum c =
     (let n = (of_char c :: nat)
      in (48 \<le> n \<and> n \<le> 57) \<or> (65 \<le> n \<and> n \<le> 90) \<or> (97 \<le> n \<and> n \<le> 122) \<or>
         n = 170 \<or> n = 178 \<or> n = 179 \<or> n = 181 \<or> n = 185 \<or> n = 186 \<or>
         (188 \<le> n \<and> n \<le> 190) \<or> (192 \<le> n \<and> n \<le> 255 \<and> n \<noteq> 215 \<and> n \<noteq> 247))"

text \<open>\<open>str.lower\<close>: \<open>A\<close> to \<open>Z\<close> and the Latin-1 capitals 192 to 222 (but 215) move up by 32.\<close>

definition lower_char :: "char \<Rightarrow> char" where
  "lower_char c =
     (let n = (of_char c :: nat)
      in if (65 \<le> n \<and> n \<le> 90) \<or> (192 \<le> n \<and> n \<le> 222 \<and> n \<noteq> 215)
         then char_of (n + 32) else c)"

definition lower :: "string \<Rightarrow> string" where
  "lower s = map lower_char s"

text \<open>
  \<open>s.split()\<close>: the maximal runs of characters that are not white space. \<open>tok\<close> is the
  run being read.
\<close>

fun split_from :: "string \<Rightarrow> string \<Rightarrow> string list" where
  "split_from tok [] = (if tok = [] then [] else [tok])"
| "split_from tok (c # cs) =
     (if isspace c then (if tok = [] then split_from [] cs else tok # split_from [] cs)
      else split_from (tok @ [c]) cs)"

definition split :: "string \<Rightarrow> string list" where
  "split s = split_from [] s"

text \<open>\<open>needle in haystack\<close> for strings: a contiguous occurrence.\<close>

definition contains :: "string \<Rightarrow> string \<Rightarrow> bool" where
  "contains haystack needle = sublist needle haystack"

text \<open>
  \<open>s.split(sep, 1)[1]\<close> for a separator that occurs in \<open>s\<close>: what follows the first
  occurrence of \<open>sep\<close>. \<open>None\<close> when \<open>sep\<close> does not occur (the list then has one element
  and \<open>[1]\<close> raises \<open>IndexError\<close>).
\<close>

fun after_first :: "string \<Rightarrow> string \<Rightarrow> string option" where
  "after_first sep [] = (if sep = [] then Some [] else None)"
| "after_first sep (c # cs) =
     (if prefix sep (c # cs) then Some (drop (length sep) (c # cs)) else after_first sep cs)"

text \<open>\<open>s.strip(chars)\<close>: drops the characters of \<open>chars\<close> from both ends.\<close>

definition strip :: "string \<Rightarrow> string \<Rightarrow> string" where
  "strip chars s =
     rev (dropWhile (\<lambda>c. c \<in> set chars) (rev (dropWhile (\<lambda>c. c \<in> set chars) s)))"

text \<open>\<open>str(n)\<close> for an integer, as the f-strings of the repository print it.\<close>

definition digit_char :: "nat \<Rightarrow> char" where
  "digit_char d = ''0123456789'' ! d"

fun str_nat :: "nat \<Rightarrow> string" where
  "str_nat n = (if n < 10 then [digit_char n] else str_nat (n div 10) @ [digit_char (n mod 10)])"

declare str_nat.simps [simp del]


section \<open>Reciprocal rank fusion (\<open>src/data/bm25_retriever.py\<close>)\<close>

text \<open>
  The scores are floats. In this section the rounding of a real to the nearest float is
  the parameter \<open>fl\<close> of every function that computes with floats: with
  \<open>fl = (\<lambda>x. x)\<close> the arithmetic is exact, with \<open>fl = binary64\<close> it is IEEE 754 double
  precision. Infinities and NaN are outside the model of this section; a term
  \<open>1.0 / (k + rank)\<close> with an integer rank is at most 1 in size, so a sum of such terms
  does not overflow.
\<close>

text \<open>
  \<open>rank = result.get('rank', result.get('score', 1))\<close>: the rank field, else the score,
  else 1; so an int or a float.
\<close>

datatype number = Int_number int | Float_number real

definition result_rank :: "ranked_result \<Rightarrow> number" where
  "result_rank result =
     (case rank result of
        Some r \<Rightarrow> Int_number r
      | None \<Rightarrow> (case score result of Some s \<Rightarrow> Float_number s | None \<Rightarrow> Int_number 1))"

text \<open>
  \<open>k + rank\<close> as the division \<open>1.0 / (k + rank)\<close> takes it. With an int the sum is exact
  and is converted to a float once; with a float, \<open>k\<close> is converted and the sum is
  rounded.
\<close>

definition rrf_denominator :: "(real \<Rightarrow> real) \<Rightarrow> int \<Rightarrow> number \<Rightarrow> real" where
  "rrf_denominator fl k x =
     (case x of
        Int_number r \<Rightarrow> fl (real_of_int (k + r))
      | Float_number s \<Rightarrow> fl (fl (real_of_int k) + s))"

text \<open>The two dictionaries of the loop, \<open>doc_scores\<close> and \<open>doc_objects\<close>, keyed by the hash.\<close>

record rrf_acc =
  doc_scores :: "(int \<times> real) list"
  doc_objects :: "(int \<times> Document) list"

text \<open>
  The body of the inner loop. \<open>1.0 / (k + rank)\<close> raises \<open>ZeroDivisionError\<close> when
  \<open>k + rank\<close> is zero; \<open>doc_scores[doc_key] += rrf_score\<close> is a rounded sum.
\<close>

definition rrf_accumulate ::
  "(real \<Rightarrow> real) \<Rightarrow> (string \<Rightarrow> int) \<Rightarrow> int \<Rightarrow> rrf_acc \<Rightarrow> ranked_result \<Rightarrow> exn + rrf_acc" where
  "rrf_accumulate fl hash k acc result =
     (let doc = document result;
          rank = result_rank result;
          doc_key = hash (page_content doc);
          denominator = rrf_denominator fl k rank
      in if denominator = 0 then Inl ZeroDivisionError
         else
           (let rrf_score = fl (1 / denominator) in
            (case map_of (doc_scores acc) doc_key of
               Some s \<Rightarrow>
                 Inr (acc\<lparr>doc_scores :=
                            AList.update doc_key (fl (s + rrf_score)) (doc_scores acc)\<rparr>)
             | None \<Rightarrow>
                 Inr (acc\<lparr>doc_scores := AList.update doc_key rrf_score (doc_scores acc),
                          doc_objects := AList.update doc_key doc (doc_objects acc)\<rparr>))))"

text \<open>\<open>for result in results\<close> and \<open>for results in results_list\<close>.\<close>

fun rrf_results ::
  "(real \<Rightarrow> real) \<Rightarrow> (string \<Rightarrow> int) \<Rightarrow> int \<Rightarrow> rrf_acc \<Rightarrow> ranked_result list
     \<Rightarrow> exn + rrf_acc" where
  "rrf_results fl hash k acc [] = Inr acc"
| "rrf_results fl hash k acc (result # results) =
     (case rrf_accumulate fl hash k acc result of
        Inl e \<Rightarrow> Inl e
      | Inr acc' \<Rightarrow> rrf_results fl hash k acc' results)"

fun rrf_lists ::
  "(real \<Rightarrow> real) \<Rightarrow> (string \<Rightarrow> int) \<Rightarrow> int \<Rightarrow> rrf_acc \<Rightarrow> ranked_result list list
     \<Rightarrow> exn + rrf_acc" where
  "rrf_lists fl hash k acc [] = Inr acc"
| "rrf_lists fl hash k acc (results # results_list) =
     (case rrf_results fl hash k acc results of
        Inl e \<Rightarrow> Inl e
      | Inr acc' \<Rightarrow> rrf_lists fl hash k acc' results_list)"

text \<open>
  \<open>sorted(doc_scores.items(), key=lambda x: x[1], reverse=True)\<close>. Python's sort is
  stable, also with \<open>reverse=True\<close>: items with equal scores keep the order of the
  dictionary. \<^const>\<open>sort_key\<close> is a stable ascending sort, here on the negated score.
\<close>

definition sorted_docs :: "(int \<times> real) list \<Rightarrow> (int \<times> real) list" where
  "sorted_docs items = sort_key (\<lambda>x. - snd x) items"

text \<open>The loop that builds \<open>fused_results\<close>; \<open>doc_objects[doc_key]\<close> raises on a missing key.\<close>

fun rrf_build ::
  "(int \<times> Document) list \<Rightarrow> ranked_result list \<Rightarrow> (int \<times> real) list
     \<Rightarrow> exn + ranked_result list" where
  "rrf_build objs fused_results [] = Inr fused_results"
| "rrf_build objs fused_results ((doc_key, s) # rest) =
     (case map_of objs doc_key of
        None \<Rightarrow> Inl KeyError
      | Some d \<Rightarrow>
          rrf_build objs
            (fused_results @
               [\<lparr>document = d, score = Some s, rank = Some (int (length fused_results) + 1)\<rparr>])
            rest)"

definition reciprocal_rank_fusion ::
  "(real \<Rightarrow> real) \<Rightarrow> (string \<Rightarrow> int) \<Rightarrow> ranked_result list list \<Rightarrow> int
     \<Rightarrow> exn + ranked_result list" where
  "reciprocal_rank_fusion fl hash results_list k =
     (case rrf_lists fl hash k \<lparr>doc_scores = [], doc_objects = []\<rparr> results_list of
        Inl e \<Rightarrow> Inl e
      | Inr acc \<Rightarrow> rrf_build (doc_objects acc) [] (sorted_docs (doc_scores acc)))"

subsection \<open>Vocabulary of the statements\<close>

text \<open>The key under which the fusion files a result: the hash of the document's content.\<close>

definition doc_key :: "(string \<Rightarrow> int) \<Rightarrow> ranked_result \<Rightarrow> int" where
  "doc_key hash result = hash (page_content (document result))"

text \<open>The term that one entry adds to the score of its document: \<open>1.0 / (k + rank)\<close>.\<close>

definition rrf_term :: "(real \<Rightarrow> real) \<Rightarrow> int \<Rightarrow> ranked_result \<Rightarrow> real" where
  "rrf_term fl k result = fl (1 / rrf_denominator fl k (result_rank result))"

text \<open>
  The float sum of a list of terms, as \<open>doc_scores[doc_key] = t1\<close> followed by
  \<open>doc_scores[doc_key] += t2\<close>, ... computes it: from the left, every sum rounded.
\<close>

fun float_sum :: "(real \<Rightarrow> real) \<Rightarrow> real list \<Rightarrow> real" where
  "float_sum fl [] = 0"
| "float_sum fl (t # ts) = foldl (\<lambda>s x. fl (s + x)) t ts"


text \<open>
  \<open>seen_before xs a b\<close>: \<open>a\<close> occurs in \<open>xs\<close> before the first occurrence of \<open>b\<close>.
\<close>

definition seen_before :: "'a list \<Rightarrow> 'a \<Rightarrow> 'a \<Rightarrow> bool" where
  "seen_before xs a b = (a \<in> set (takeWhile (\<lambda>x. x \<noteq> b) xs))"

text \<open>The invariant of the accumulation loop after the results \<open>seen\<close>.\<close>

definition rrf_inv ::
  "(real \<Rightarrow> real) \<Rightarrow> (string \<Rightarrow> int) \<Rightarrow> int \<Rightarrow> ranked_result list \<Rightarrow> rrf_acc \<Rightarrow> bool" where
  "rrf_inv fl hash k seen acc \<longleftrightarrow>
     map fst (doc_objects acc) = map fst (doc_scores acc) \<and>
     distinct (map fst (doc_scores acc)) \<and>
     set (map fst (doc_scores acc)) = doc_key hash ` set seen \<and>
     sorted_wrt (seen_before (map (doc_key hash) seen)) (map fst (doc_scores acc)) \<and>
     (\<forall>key. map_of (doc_scores acc) key =
        (if key \<in> doc_key hash ` set seen
         then Some (float_sum fl (map (rrf_term fl k) (filter (\<lambda>r. doc_key hash r = key) seen)))
         else None)) \<and>
     (\<forall>key. map_of (doc_objects acc) key =
        map_option document (find (\<lambda>r. doc_key hash r = key) seen))"

text \<open>The entry the build loop appends for the item at position \<open>fst p\<close>.\<close>

definition fused_entry :: "(int \<times> Document) list \<Rightarrow> nat \<times> (int \<times> real) \<Rightarrow> ranked_result" where
  "fused_entry objs p =
     \<lparr>document = the (map_of objs (fst (snd p))), score = Some (snd (snd p)),
      rank = Some (int (fst p) + 1)\<rparr>"

text \<open>A sample result.\<close>

definition demo_result :: "string \<Rightarrow> real \<Rightarrow> int \<Rightarrow> ranked_result" where
  "demo_result content s r =
     \<lparr>document = \<lparr>page_content = content, metadata = []\<rparr>, score = Some s, rank = Some r\<rparr>"

section \<open>Reranker (\<open>src/ml/reranker.py\<close>)\<close>

text \<open>
  The two scoring back ends are external: the Cohere client's \<open>rerank\<close> call and the
  cross-encoder's \<open>predict\<close>. Each is a function that returns its answer or raises.
  A field is \<open>None\<close> when the back end was not initialised.
\<close>

record cohere_result =
  index :: int
  relevance_score :: real

record Reranker =
  use_local :: bool
  cohere_client :: "(string \<Rightarrow> string list \<Rightarrow> int \<Rightarrow> exn + cohere_result list) option"
  cross_encoder :: "((string \<times> string) list \<Rightarrow> exn + real list) option"

text \<open>A metadata value read as a float; a string has no such reading.\<close>

fun float_of :: "pyval \<Rightarrow> real option" where
  "float_of (VFloat x) = Some x"
| "float_of (VInt i) = Some (real_of_int i)"
| "float_of (VBool b) = Some (if b then 1 else 0)"
| "float_of (VStr s) = None"

text \<open>\<open>doc.metadata.get('relevance_score', 0.5)\<close>.\<close>

definition metadata_score :: "Document \<Rightarrow> real option" where
  "metadata_score doc =
     (case map_of (metadata doc) ''relevance_score'' of
        None \<Rightarrow> Some (1 / 2)
      | Some v \<Rightarrow> float_of v)"

text \<open>
  The fallback of all three paths: the original order, cut to \<open>documents[:top_k]\<close>, with
  \<open>rank = i + 1\<close>.
\<close>

definition original_order :: "Document list \<Rightarrow> int \<Rightarrow> ranked_result list" where
  "original_order documents top_k =
     map (\<lambda>p. \<lparr>document = snd p, score = metadata_score (snd p), rank = Some (int (fst p) + 1)\<rparr>)
       (enumerate 0 (py_take top_k documents))"

text \<open>
  \<open>_rerank_local\<close>: \<open>zip\<close> stops at the shorter list, the sort is stable and descending,
  and the loop over \<open>scored_docs[:top_k]\<close> gives \<open>rank = len(reranked) + 1\<close>. An
  exception of \<open>predict\<close> is caught and answered with the original order.
\<close>

definition rerank_local ::
  "((string \<times> string) list \<Rightarrow> exn + real list) \<Rightarrow> string \<Rightarrow> Document list \<Rightarrow> int
     \<Rightarrow> ranked_result list" where
  "rerank_local predict query documents top_k =
     (case predict (map (\<lambda>doc. (query, page_content doc)) documents) of
        Inl e \<Rightarrow> original_order documents top_k
      | Inr scores \<Rightarrow>
          (let scored_docs = sort_key (\<lambda>x. - snd x) (zip documents scores)
           in map (\<lambda>p. \<lparr>document = fst (snd p), score = Some (snd (snd p)),
                         rank = Some (int (fst p) + 1)\<rparr>)
                (enumerate 0 (py_take top_k scored_docs))))"

text \<open>
  \<open>_rerank_cohere\<close>: one output entry per result of the service;
  \<open>documents[result.index]\<close> raises on an index out of range, which the \<open>except\<close>
  answers with the original order.
\<close>

fun cohere_build ::
  "Document list \<Rightarrow> ranked_result list \<Rightarrow> cohere_result list \<Rightarrow> exn + ranked_result list" where
  "cohere_build documents reranked [] = Inr reranked"
| "cohere_build documents reranked (result # rest) =
     (case py_index documents (index result) of
        Inl e \<Rightarrow> Inl e
      | Inr d \<Rightarrow>
          cohere_build documents
            (reranked @
               [\<lparr>document = d, score = Some (relevance_score result),
                 rank = Some (int (length reranked) + 1)\<rparr>])
            rest)"

definition rerank_cohere ::
  "(string \<Rightarrow> string list \<Rightarrow> int \<Rightarrow> exn + cohere_result list) \<Rightarrow> string \<Rightarrow> Document list \<Rightarrow> int
     \<Rightarrow> ranked_result list" where
  "rerank_cohere client query documents top_k =
     (case client query (map page_content documents) top_k of
        Inl e \<Rightarrow> original_order documents top_k
      | Inr results \<Rightarrow>
          (case cohere_build documents [] results of
             Inl e \<Rightarrow> original_order documents top_k
           | Inr reranked \<Rightarrow> reranked))"

definition rerank :: "Reranker \<Rightarrow> string \<Rightarrow> Document list \<Rightarrow> int \<Rightarrow> ranked_result list" where
  "rerank self query documents top_k =
     (if documents = [] then []
      else
        (case (if use_local self then cross_encoder self else None) of
           Some predict \<Rightarrow> rerank_local predict query documents top_k
         | None \<Rightarrow>
             (case cohere_client self of
                Some client \<Rightarrow> rerank_cohere client query documents top_k
              | None \<Rightarrow> original_order documents top_k)))"

text \<open>A sample service: it returns the first \<open>top_n\<close> documents, in order.\<close>

definition demo_cohere :: "string \<Rightarrow> string list \<Rightarrow> int \<Rightarrow> exn + cohere_result list" where
  "demo_cohere query texts top_n =
     Inr (map (\<lambda>i. \<lparr>index = int i, relevance_score = 1 / (1 + real i)\<rparr>)
            [0..<min (nat top_n) (length texts)])"

text \<open>A sample service that ignores \<open>top_n\<close> and names the first document twice.\<close>

definition chatty_cohere :: "string \<Rightarrow> string list \<Rightarrow> int \<Rightarrow> exn + cohere_result list" where
  "chatty_cohere query texts top_n =
     Inr [\<lparr>index = 0, relevance_score = 1\<rparr>, \<lparr>index = 0, relevance_score = 1 / 2\<rparr>]"

definition demo_docs :: "Document list" where
  "demo_docs =
     [\<lparr>page_content = ''python loops'', metadata = [(''relevance_score'', VFloat (9/10))]\<rparr>,
      \<lparr>page_content = ''python basics'', metadata = []\<rparr>,
      \<lparr>page_content = ''closures'', metadata = []\<rparr>]"

section \<open>Keyword index (\<open>BM25Retriever\<close> in \<open>src/data/bm25_retriever.py\<close>)\<close>

text \<open>
  \<open>rank_bm25.BM25Okapi\<close> and \<open>numpy.argsort\<close> are libraries. The index object is
  represented by its \<open>get_scores\<close> method, a function from the query tokens to one score
  per indexed document; the constructor \<open>BM25Okapi(corpus, k1=..., b=...)\<close> and
  \<open>argsort\<close> are parameters. The fields \<open>k1\<close> and \<open>b\<close> of the class are \<open>param_k1\<close> and
  \<open>param_b\<close> here.
\<close>

record BM25Retriever =
  param_k1 :: real
  param_b :: real
  bm25 :: "(string list \<Rightarrow> real list) option"
  documents :: "Document list"
  tokenized_corpus :: "string list list"

definition index_documents ::
  "(string list list \<Rightarrow> real \<Rightarrow> real \<Rightarrow> string list \<Rightarrow> real list) \<Rightarrow> BM25Retriever
     \<Rightarrow> Document list \<Rightarrow> BM25Retriever" where
  "index_documents okapi self docs =
     (if docs = [] then self
      else
        (let corpus = map (\<lambda>doc. split (lower (page_content doc))) docs
         in self\<lparr>documents := docs, tokenized_corpus := corpus,
                 bm25 := Some (okapi corpus (param_k1 self) (param_b self))\<rparr>))"

text \<open>
  The loop over \<open>top_indices\<close>: \<open>scores[idx]\<close> and \<open>self.documents[idx]\<close> raise on an index
  out of range; a result is appended only when \<open>scores[idx] > 0\<close>, with
  \<open>rank = len(results) + 1\<close>.
\<close>

fun search_loop ::
  "Document list \<Rightarrow> real list \<Rightarrow> ranked_result list \<Rightarrow> nat list \<Rightarrow> exn + ranked_result list" where
  "search_loop docs scores results [] = Inr results"
| "search_loop docs scores results (idx # rest) =
     (if length scores \<le> idx then Inl IndexError
      else if 0 < scores ! idx then
        (if length docs \<le> idx then Inl IndexError
         else search_loop docs scores
                (results @
                   [\<lparr>document = docs ! idx, score = Some (scores ! idx),
                     rank = Some (int (length results) + 1)\<rparr>])
                rest)
      else search_loop docs scores results rest)"

text \<open>\<open>top_indices = np.argsort(scores)[::-1][:top_k]\<close>.\<close>

definition search ::
  "(real list \<Rightarrow> nat list) \<Rightarrow> BM25Retriever \<Rightarrow> string \<Rightarrow> int \<Rightarrow> exn + ranked_result list" where
  "search argsort self query top_k =
     (case bm25 self of
        None \<Rightarrow> Inr []
      | Some get_scores \<Rightarrow>
          if documents self = [] then Inr []
          else
            (let tokenized_query = split (lower query);
                 scores = get_scores tokenized_query;
                 top_indices = py_take top_k (rev (argsort scores))
             in search_loop (documents self) scores [] top_indices))"

text \<open>
  Sample instances of the two libraries: an index that counts the query tokens occurring
  in each document, and the stable ascending \<open>argsort\<close>.
\<close>

definition demo_okapi :: "string list list \<Rightarrow> real \<Rightarrow> real \<Rightarrow> string list \<Rightarrow> real list" where
  "demo_okapi corpus k1 b q =
     map (\<lambda>toks. real (length (filter (\<lambda>t. t \<in> set toks) q))) corpus"

definition demo_argsort :: "real list \<Rightarrow> nat list" where
  "demo_argsort xs = map snd (sort_key fst (zip xs [0..<length xs]))"

definition demo_corpus :: "Document list" where
  "demo_corpus =
     [\<lparr>page_content = ''Python loops and functions'', metadata = []\<rparr>,
      \<lparr>page_content = ''Variables in Python'', metadata = []\<rparr>,
      \<lparr>page_content = ''JavaScript closures'', metadata = []\<rparr>]"

definition demo_retriever :: BM25Retriever where
  "demo_retriever =
     index_documents demo_okapi
       \<lparr>param_k1 = 3 / 2, param_b = 3 / 4, bm25 = None, documents = [], tokenized_corpus = []\<rparr>
       demo_corpus"

section \<open>Query rewriter (\<open>src/ml/query_rewriter.py\<close>)\<close>

text \<open>
  The text-generation service is external. \<open>client.chat.completions.create\<close> is a
  function of the model name, the messages (role and content), the temperature and
  \<open>max_tokens\<close>; it raises, or returns a response, of which the model keeps
  \<open>message.content\<close> of each choice (\<open>None\<close> when the choice has no text).
  The fields of the class carry the prefix \<open>qr_\<close>.
\<close>

type_synonym chat_client =
  "string \<Rightarrow> (string \<times> string) list \<Rightarrow> real \<Rightarrow> int \<Rightarrow> exn + string option list"

record QueryRewriter =
  qr_api_key :: "string option"
  qr_model :: string
  qr_max_tokens :: int
  qr_client :: "chat_client option"

text \<open>\<open>s.strip()\<close>: white space off both ends.\<close>

definition strip_space :: "string \<Rightarrow> string" where
  "strip_space s = rev (dropWhile isspace (rev (dropWhile isspace s)))"

text \<open>The prompt (its arrow is written \<open>->\<close> here) and the two messages of the call.\<close>

definition rewrite_prompt :: "string \<Rightarrow> string" where
  "rewrite_prompt query =
     ''You are a query expansion expert. Your task is to rewrite the following search query to be more detailed and specific for a vector database search.\<newline>\<newline>Original query: \"''
     @ query @
     ''\"\<newline>\<newline>Rewrite this query to:\<newline>1. Expand abbreviations (e.g., \"ML\" -> \"machine learning\")\<newline>2. Add relevant context and related terms\<newline>3. Make it more specific and searchable\<newline>4. Keep it concise (1-2 sentences max)\<newline>\<newline>Rewritten query:''"

definition rewrite_messages :: "string \<Rightarrow> (string \<times> string) list" where
  "rewrite_messages query =
     [(''system'', ''You are a helpful assistant that expands search queries.''),
      (''user'', rewrite_prompt query)]"

text \<open>
  The body of the \<open>try\<close>: the call, then \<open>response.choices[0].message.content.strip()\<close>
  and \<open>.strip('"\'')\<close>. \<open>choices[0]\<close> raises on an empty list, \<open>.strip()\<close> on \<open>None\<close>.
\<close>

definition rewrite_body :: "chat_client \<Rightarrow> QueryRewriter \<Rightarrow> string \<Rightarrow> exn + string" where
  "rewrite_body client self query =
     (case client (qr_model self) (rewrite_messages query) (3 / 10) (qr_max_tokens self) of
        Inl e \<Rightarrow> Inl e
      | Inr choices \<Rightarrow>
          (case choices of
             [] \<Rightarrow> Inl IndexError
           | None # _ \<Rightarrow> Inl AttributeError
           | Some content # _ \<Rightarrow> Inr (strip [CHR ''\"'', CHR 0x27] (strip_space content))))"

text \<open>
  \<open>rewrite\<close>: no client, or a query of more than 50 characters, returns the query;
  \<open>except Exception\<close> returns the query as well.
\<close>

definition rewrite :: "QueryRewriter \<Rightarrow> string \<Rightarrow> exn + string" where
  "rewrite self query =
     (case qr_client self of
        None \<Rightarrow> Inr query
      | Some client \<Rightarrow>
          if 50 < length query then Inr query
          else
            (case rewrite_body client self query of
               Inl e \<Rightarrow> Inr query
             | Inr rewritten_query \<Rightarrow> Inr rewritten_query))"

definition rewrite_if_needed :: "QueryRewriter \<Rightarrow> string \<Rightarrow> int \<Rightarrow> exn + string" where
  "rewrite_if_needed self query threshold =
     (if int (length query) < threshold then rewrite self query else Inr query)"

text \<open>Sample services: one that times out, one that answers.\<close>

definition failing_client :: chat_client where
  "failing_client m msgs temperature n = Inl (Exception ''Request timed out.'')"

definition answering_client :: chat_client where
  "answering_client m msgs temperature n =
     Inr [Some '' \"machine learning algorithms and models\" '']"

definition demo_rewriter :: "chat_client \<Rightarrow> QueryRewriter" where
  "demo_rewriter client =
     \<lparr>qr_api_key = Some ''sk-test'', qr_model = ''gpt-3.5-turbo'', qr_max_tokens = 100,
      qr_client = Some client\<rparr>"

section \<open>Schema repair (\<open>DocumentStore._try_repair_collection_schema\<close>)\<close>

text \<open>
  What the function touches outside the process: whether \<open>chroma.sqlite3\<close> exists, and
  what \<open>sqlite3.connect\<close>, \<open>conn.execute\<close> and \<open>conn.commit\<close> do (\<open>None\<close>: the call
  succeeds; \<open>Some e\<close>: it raises \<open>e\<close>).
\<close>

record sqlite_env =
  db_file_exists :: bool
  connect :: "exn option"
  execute :: "string \<Rightarrow> exn option"
  commit :: "exn option"

definition missing_prefix :: string where
  "missing_prefix = ''no such column: ''"

definition quote_chars :: string where
  "quote_chars = ''\"`[]''"

definition safe_char :: "char \<Rightarrow> bool" where
  "safe_char ch = (isalnum ch \<or> ch = CHR ''_'')"

definition alter_statement :: "string \<Rightarrow> string \<Rightarrow> string" where
  "alter_statement safe_table safe_column =
     ''ALTER TABLE '' @ safe_table @ '' ADD COLUMN '' @ safe_column @ '' TEXT''"

text \<open>\<open>except sqlite3.OperationalError\<close> returns \<open>False\<close>; any other error propagates.\<close>

definition alter_failed :: "exn \<Rightarrow> exn + bool" where
  "alter_failed e = (case e of OperationalError msg \<Rightarrow> Inr False | _ \<Rightarrow> Inl e)"

text \<open>
  The last block: the statements given to \<open>conn.execute\<close> are returned next to the
  result.
\<close>

definition add_column :: "sqlite_env \<Rightarrow> string \<Rightarrow> string \<Rightarrow> (exn + bool) \<times> string list" where
  "add_column env safe_table safe_column =
     (if \<not> db_file_exists env then (Inr False, [])
      else
        (case connect env of
           Some e \<Rightarrow> (alter_failed e, [])
         | None \<Rightarrow>
             (let statement = alter_statement safe_table safe_column
              in case execute env statement of
                   Some e \<Rightarrow> (alter_failed e, [statement])
                 | None \<Rightarrow>
                     (case commit env of
                        Some e \<Rightarrow> (alter_failed e, [statement])
                      | None \<Rightarrow> (Inr True, [statement])))))"

text \<open>
  The function. \<open>message.split(missing_prefix, 1)[1].split()[0]\<close> raises \<open>IndexError\<close>
  when nothing but white space follows the prefix, and the \<open>except\<close> returns \<open>False\<close>.
  \<open>parts.split('.', 1)\<close> is the text before the first dot and the text after it.
\<close>

definition try_repair_collection_schema ::
  "sqlite_env \<Rightarrow> exn \<Rightarrow> (exn + bool) \<times> string list" where
  "try_repair_collection_schema env error =
     (let message = str_of_exn error in
      if \<not> contains message missing_prefix then (Inr False, [])
      else
        (case after_first missing_prefix message of
           None \<Rightarrow> (Inr False, [])
         | Some rest \<Rightarrow>
             (case split rest of
                [] \<Rightarrow> (Inr False, [])
              | tok # _ \<Rightarrow>
                  (let parts = strip quote_chars tok in
                   if CHR ''.'' \<notin> set parts then (Inr False, [])
                   else
                     (let table_name = takeWhile (\<lambda>ch. ch \<noteq> CHR ''.'') parts;
                          column_name = tl (dropWhile (\<lambda>ch. ch \<noteq> CHR ''.'') parts);
                          safe_table = filter safe_char table_name;
                          safe_column = filter safe_char column_name
                      in if safe_table \<noteq> table_name \<or> safe_column \<noteq> column_name
                         then (Inr False, [])
                         else add_column env safe_table safe_column)))))"

text \<open>Sample environments: a database that accepts the statement.\<close>

definition demo_env :: sqlite_env where
  "demo_env = \<lparr>db_file_exists = True, connect = None, execute = (\<lambda>s. None), commit = None\<rparr>"

section \<open>Vector index store (\<open>src/data/document_store.py\<close>)\<close>

text \<open>
  The storage engine (ChromaDB) is external. A \<open>DocumentStore\<close> is represented by what
  its engine does: \<open>get_or_create_collection\<close>, and \<open>add\<close>, \<open>query\<close> and \<open>get\<close> of a
  collection handle of type \<open>'c\<close>. The engine is stateful, so the two calls that the code
  repeats after a schema repair take the number of earlier attempts as an argument.
  \<open>sqlite\<close> is the database file that the schema repair alters.
\<close>

text \<open>
  A condition of a \<open>where\<close> clause: a value to match, \<open>{"$in": values}\<close>, or a list
  handed over as it came.
\<close>

datatype where_value = Equals pyval | In "pyval list" | Plain_list "pyval list"

type_synonym where_clause = "(string \<times> where_value) list"

text \<open>The dictionary that \<open>collection.query\<close> returns, read with \<open>result.get(...)\<close>.\<close>

record query_result =
  res_documents :: "string list list option"
  res_metadatas :: "pydict list list option"
  res_distances :: "real list list option"

text \<open>The dictionary that \<open>collection.get\<close> returns.\<close>

record get_result =
  got_documents :: "string list option"
  got_metadatas :: "pydict list option"

record 'c DocumentStore =
  get_or_create_collection :: "nat \<Rightarrow> string \<Rightarrow> exn + 'c"
  collection_add :: "'c \<Rightarrow> string list \<Rightarrow> pydict list \<Rightarrow> string list \<Rightarrow> exn option"
  collection_query :: "'c \<Rightarrow> nat \<Rightarrow> string \<Rightarrow> int \<Rightarrow> where_clause option \<Rightarrow> exn + query_result"
  collection_get :: "'c \<Rightarrow> where_clause option \<Rightarrow> exn + get_result"
  sqlite :: sqlite_env

text \<open>
  \<open>_initialize_collection\<close>: on an error, one schema repair and, if it succeeded, one
  more attempt; otherwise the error is raised again.
\<close>

definition initialize_collection :: "'c DocumentStore \<Rightarrow> string \<Rightarrow> exn + 'c" where
  "initialize_collection self name =
     (case get_or_create_collection self 0 name of
        Inr collection \<Rightarrow> Inr collection
      | Inl exc \<Rightarrow>
          (case fst (try_repair_collection_schema (sqlite self) exc) of
             Inl e \<Rightarrow> Inl e
           | Inr True \<Rightarrow> get_or_create_collection self 1 name
           | Inr False \<Rightarrow> Inl exc))"

subsection \<open>Adding documents\<close>





text \<open>A sample engine with one collection handle that accepts every call.\<close>

definition demo_store :: "unit DocumentStore" where
  "demo_store =
     \<lparr>get_or_create_collection = (\<lambda>attempt name. Inr ()),
      collection_add = (\<lambda>c contents metadatas ids. None),
      collection_query =
        (\<lambda>c attempt text n w.
           Inr \<lparr>res_documents = None, res_metadatas = None, res_distances = None\<rparr>),
      collection_get = (\<lambda>c w. Inr \<lparr>got_documents = None, got_metadatas = None\<rparr>),
      sqlite = demo_env\<rparr>"

subsection \<open>Semantic search\<close>

text \<open>A value of the \<open>filters\<close> dictionary: a list or anything else.\<close>

datatype filter_value = Scalar pyval | List_value "pyval list"

type_synonym filters = "(string \<times> filter_value) list option"

text \<open>
  \<open>search_documents\<close> turns a list into \<open>{"$in": value}\<close>; \<open>if filters:\<close> skips \<open>None\<close> and
  the empty dictionary, and \<open>where if where else None\<close> passes \<open>None\<close> for an empty clause.
\<close>

definition search_where :: "filters \<Rightarrow> where_clause option" where
  "search_where fs =
     (let w = (case fs of
                 None \<Rightarrow> []
               | Some items \<Rightarrow>
                   map (\<lambda>(key, v). (key, case v of List_value vs \<Rightarrow> In vs | Scalar x \<Rightarrow> Equals x))
                     items)
      in if w = [] then None else Some w)"

text \<open>
  \<open>result["metadatas"][0][i] if result.get("metadatas") and result["metadatas"][0] else {}\<close>
  and the same for the distances with \<open>1.0\<close>: a missing or empty list gives the default,
  an index out of range raises.
\<close>

definition first_row_item :: "'a list list option \<Rightarrow> int \<Rightarrow> 'a \<Rightarrow> exn + 'a" where
  "first_row_item rows i fallback =
     (case rows of
        None \<Rightarrow> Inr fallback
      | Some [] \<Rightarrow> Inr fallback
      | Some (row # _) \<Rightarrow> if row = [] then Inr fallback else py_index row i)"

text \<open>
  The body of the conversion loop for index \<open>i\<close>:
  \<open>metadata["relevance_score"] = 1.0 - (distance / 2.0)\<close>.
\<close>

definition annotate :: "query_result \<Rightarrow> string list \<Rightarrow> int \<Rightarrow> exn + Document" where
  "annotate result row i =
     (case py_index row i of
        Inl e \<Rightarrow> Inl e
      | Inr content \<Rightarrow>
          (case first_row_item (res_metadatas result) i [] of
             Inl e \<Rightarrow> Inl e
           | Inr md \<Rightarrow>
               (case first_row_item (res_distances result) i 1 of
                  Inl e \<Rightarrow> Inl e
                | Inr distance \<Rightarrow>
                    Inr \<lparr>page_content = content,
                         metadata = AList.update ''relevance_score''
                                      (VFloat (1 - distance / 2)) md\<rparr>)))"

fun annotate_all :: "query_result \<Rightarrow> string list \<Rightarrow> Document list \<Rightarrow> int list \<Rightarrow> exn + Document list" where
  "annotate_all result row docs [] = Inr docs"
| "annotate_all result row docs (i # rest) =
     (case annotate result row i of
        Inl e \<Rightarrow> Inl e
      | Inr doc \<Rightarrow> annotate_all result row (docs @ [doc]) rest)"

text \<open>
  Lines 329 to 349: \<open>for i in range(offset, min(offset + top_k, len(result["documents"][0])))\<close>.
\<close>

definition convert_result :: "query_result \<Rightarrow> int \<Rightarrow> int \<Rightarrow> exn + Document list" where
  "convert_result result top_k offset =
     (case res_documents result of
        None \<Rightarrow> Inr []
      | Some [] \<Rightarrow> Inr []
      | Some (row # _) \<Rightarrow>
          annotate_all result row []
            [offset..min (offset + top_k) (int (length row)) - 1])"

text \<open>
  \<open>search_documents\<close>: no collection gives the empty list; a failed query gets one
  schema repair and one more attempt, and gives the empty list when either fails.
\<close>

definition search_documents ::
  "'c DocumentStore \<Rightarrow> string \<Rightarrow> string \<Rightarrow> filters \<Rightarrow> int \<Rightarrow> int \<Rightarrow> exn + Document list" where
  "search_documents self query collection_name fs top_k offset =
     (case initialize_collection self collection_name of
        Inl e \<Rightarrow> Inr []
      | Inr collection \<Rightarrow>
          (case collection_query self collection 0 query (top_k + offset) (search_where fs) of
             Inr result \<Rightarrow> convert_result result top_k offset
           | Inl e \<Rightarrow>
               (case fst (try_repair_collection_schema (sqlite self) e) of
                  Inl e' \<Rightarrow> Inl e'
                | Inr False \<Rightarrow> Inr []
                | Inr True \<Rightarrow>
                    (case collection_query self collection 1 query (top_k + offset)
                            (search_where fs) of
                       Inl retry_error \<Rightarrow> Inr []
                     | Inr result \<Rightarrow> convert_result result top_k offset))))"

subsection \<open>The keyword branch of \<open>hybrid_search\<close>\<close>

text \<open>\<open>where.update(filters)\<close>: the filters as they came.\<close>

definition keyword_where :: "filters \<Rightarrow> where_clause option" where
  "keyword_where fs =
     (let w = (case fs of
                 None \<Rightarrow> []
               | Some items \<Rightarrow>
                   map (\<lambda>(key, v). (key, case v of List_value vs \<Rightarrow> Plain_list vs
                                            | Scalar x \<Rightarrow> Equals x))
                     items)
      in if w = [] then None else Some w)"

text \<open>\<open>sum(1 for term in query_terms if term in content_lower)\<close>.\<close>

definition match_count :: "string list \<Rightarrow> string \<Rightarrow> nat" where
  "match_count query_terms content = length (filter (contains (lower content)) query_terms)"

text \<open>
  The loop over \<open>enumerate(result["documents"])\<close>. It runs inside \<open>try ... except
  Exception: pass\<close>: an \<open>IndexError\<close> of \<open>result["metadatas"][i]\<close> ends the loop and keeps
  the documents appended so far.
\<close>

fun keyword_loop ::
  "string list \<Rightarrow> pydict list option \<Rightarrow> Document list \<Rightarrow> (nat \<times> string) list \<Rightarrow> Document list" where
  "keyword_loop query_terms metadatas keyword_docs [] = keyword_docs"
| "keyword_loop query_terms metadatas keyword_docs ((i, content) # rest) =
     (if 0 < match_count query_terms content then
        (case (case metadatas of
                 None \<Rightarrow> Inr []
               | Some mds \<Rightarrow> if mds = [] then Inr [] else py_index mds (int i)) of
           Inl e \<Rightarrow> keyword_docs
         | Inr md \<Rightarrow>
             keyword_loop query_terms metadatas
               (keyword_docs @
                  [\<lparr>page_content = content,
                    metadata = AList.update ''relevance_score''
                                 (VFloat (real (match_count query_terms content) /
                                          real (length query_terms))) md\<rparr>])
               rest)
      else keyword_loop query_terms metadatas keyword_docs rest)"

text \<open>
  Lines 419 to 453. \<open>query_terms = set(query.lower().split())\<close> is the list of the
  distinct terms.
\<close>

definition hybrid_search_keyword_docs ::
  "'c DocumentStore \<Rightarrow> string \<Rightarrow> string \<Rightarrow> filters \<Rightarrow> Document list" where
  "hybrid_search_keyword_docs self query collection_name fs =
     (case initialize_collection self collection_name of
        Inl e \<Rightarrow> []
      | Inr collection \<Rightarrow>
          (case collection_get self collection (keyword_where fs) of
             Inl e \<Rightarrow> []
           | Inr result \<Rightarrow>
               (case got_documents result of
                  None \<Rightarrow> []
                | Some contents \<Rightarrow>
                    keyword_loop (remdups (split (lower query))) (got_metadatas result) []
                      (enumerate 0 contents))))"

text \<open>
  A sample engine over three documents: the query answers with distances \<open>0.4\<close>, \<open>1\<close>
  and \<open>3\<close>.
\<close>

definition corpus_store :: "unit DocumentStore" where
  "corpus_store =
     demo_store
       \<lparr>collection_query :=
          (\<lambda>c attempt text n w.
             Inr \<lparr>res_documents =
                    Some [[''Python loops and functions'', ''Variables in Python'',
                           ''JavaScript closures'']],
                  res_metadatas = Some [[[(''topic'', VStr ''python'')], [], []]],
                  res_distances = Some [[2 / 5, 1, 3]]\<rparr>),
        collection_get :=
          (\<lambda>c w.
             Inr \<lparr>got_documents =
                    Some [''Python loops and functions'', ''Variables in Python'',
                          ''JavaScript closures''],
                  got_metadatas = Some [[(''topic'', VStr ''python'')], [], []]\<rparr>)\<rparr>"

subsection \<open>Vocabulary of the statements\<close>

text \<open>\<open>keyword_scored doc\<close>: the document carries a relevance score in \<open>(0, 1]\<close>.\<close>

definition keyword_scored :: "Document \<Rightarrow> bool" where
  "keyword_scored doc \<longleftrightarrow>
     (\<exists>x. map_of (metadata doc) ''relevance_score'' = Some (VFloat x) \<and> 0 < x \<and> x \<le> 1)"

section \<open>Context compressor (\<open>src/ml/context_compressor.py\<close>)\<close>

text \<open>The fields of the class carry the prefix \<open>cc_\<close>; the service is a \<open>chat_client\<close>.\<close>

record ContextCompressor =
  cc_api_key :: "string option"
  cc_model :: string
  cc_max_tokens :: int
  cc_client :: "chat_client option"

definition compress_prompt :: "string \<Rightarrow> string \<Rightarrow> string" where
  "compress_prompt query content =
     ''You are a text compression expert. Extract only the sentences from the following text that are directly relevant to answering this query:\<newline>\<newline>Query: \"''
     @ query @ ''\"\<newline>\<newline>Text:\<newline>'' @ content @
     ''\<newline>\<newline>Instructions:\<newline>1. Extract ONLY sentences that directly answer or relate to the query\<newline>2. Preserve the original wording - do not paraphrase\<newline>3. Remove redundant or tangential information\<newline>4. Keep the extracted sentences in their original order\<newline>5. If multiple sentences are relevant, separate them with a space\<newline>\<newline>Relevant sentences:''"

definition compress_messages :: "string \<Rightarrow> string \<Rightarrow> (string \<times> string) list" where
  "compress_messages query content =
     [(''system'', ''You are a helpful assistant that extracts relevant information.''),
      (''user'', compress_prompt query content)]"

text \<open>
  The body of the \<open>try\<close> of \<open>_compress_single\<close>: the call, then
  \<open>response.choices[0].message.content.strip()\<close>, and the original content when the
  result has fewer than 50 characters.
\<close>

definition compress_single_body :: "ContextCompressor \<Rightarrow> string \<Rightarrow> string \<Rightarrow> exn + string" where
  "compress_single_body self query content =
     (case cc_client self of
        None \<Rightarrow> Inl AttributeError
      | Some client \<Rightarrow>
          (case client (cc_model self) (compress_messages query content) (1 / 10)
                  (cc_max_tokens self) of
             Inl e \<Rightarrow> Inl e
           | Inr choices \<Rightarrow>
               (case choices of
                  [] \<Rightarrow> Inl IndexError
                | None # _ \<Rightarrow> Inl AttributeError
                | Some text # _ \<Rightarrow>
                    (let compressed = strip_space text
                     in if length compressed < 50 then Inr content else Inr compressed))))"

text \<open>\<open>_compress_single\<close>: \<open>except Exception\<close> returns the original content.\<close>

definition compress_single :: "ContextCompressor \<Rightarrow> string \<Rightarrow> string \<Rightarrow> string" where
  "compress_single self query content =
     (case compress_single_body self query content of
        Inl e \<Rightarrow> content
      | Inr compressed \<Rightarrow> compressed)"

text \<open>
  One round of the loop of \<open>compress\<close>. A document of fewer than 100 estimated tokens
  (\<open>len(doc.page_content) // 4\<close>) is appended as it is. Otherwise a new document is
  built from the answer of \<open>_compress_single\<close>, with the metadata
  \<open>{**doc.metadata, 'compressed': True, 'original_length': ..., 'compressed_length': ...}\<close>.
  \<open>_compress_single\<close> does not raise, so the \<open>except\<close> of the loop is never entered. The
  token totals that the loop adds up are only printed.
\<close>

definition compress_document :: "ContextCompressor \<Rightarrow> string \<Rightarrow> Document \<Rightarrow> Document" where
  "compress_document self query doc =
     (let original_tokens = length (page_content doc) div 4 in
      if original_tokens < 100 then doc
      else
        (let compressed_content = compress_single self query (page_content doc)
         in \<lparr>page_content = compressed_content,
              metadata =
                AList.update ''compressed_length'' (VInt (int (length compressed_content)))
                  (AList.update ''original_length'' (VInt (int (length (page_content doc))))
                     (AList.update ''compressed'' (VBool True) (metadata doc)))\<rparr>))"

fun compress_loop ::
  "ContextCompressor \<Rightarrow> string \<Rightarrow> Document list \<Rightarrow> Document list \<Rightarrow> Document list" where
  "compress_loop self query compressed_docs [] = compressed_docs"
| "compress_loop self query compressed_docs (doc # rest) =
     compress_loop self query (compressed_docs @ [compress_document self query doc]) rest"

definition compress :: "ContextCompressor \<Rightarrow> string \<Rightarrow> Document list \<Rightarrow> Document list" where
  "compress self query docs =
     (if cc_client self = None \<or> docs = [] then docs
      else compress_loop self query [] docs)"

text \<open>Sample inputs: a document of 592 characters and a short one.\<close>

definition long_text :: string where
  "long_text = concat (replicate 16 ''Python loops repeat a block of code. '')"

definition demo_compressor :: "chat_client \<Rightarrow> ContextCompressor" where
  "demo_compressor client =
     \<lparr>cc_api_key = Some ''sk-test'', cc_model = ''gpt-3.5-turbo'', cc_max_tokens = 500,
      cc_client = Some client\<rparr>"

definition extracting_client :: chat_client where
  "extracting_client m msgs temperature n =
     Inr [Some ''Python loops repeat a block of code. Python loops repeat a block of code.'']"

definition demo_documents :: "Document list" where
  "demo_documents =
     [\<lparr>page_content = long_text, metadata = [(''topic'', VStr ''python'')]\<rparr>,
      \<lparr>page_content = ''Variables in Python'', metadata = []\<rparr>]"

section \<open>Semantic cache: cosine similarity (\<open>src/utils/semantic_cache.py\<close>)\<close>

text \<open>
  What is stated of \<open>_cosine_similarity\<close> is an equality between floats and the absence
  of a division by zero, so this section models \<open>float64\<close> values as they are: finite
  values, the two infinities and NaN, with the rounding of every operation. \<open>-0.0\<close> is
  identified with \<open>0.0\<close>, to which it compares equal.
\<close>

datatype float64 = Finite real | Infinite bool | NaN

text \<open>
  \<open>Infinite True\<close> is \<open>+inf\<close> and \<open>Infinite False\<close> is \<open>-inf\<close>. The components of the
  vectors are finite floats, given as reals.
\<close>

subsection \<open>Rounding to a \<open>float64\<close> value\<close>

text \<open>
  The rounding of a real result to a \<open>float64\<close> value: \<^const>\<open>binary64\<close>, and a result
  that rounds to \<open>2^1024\<close> or beyond overflows to an infinity.
\<close>

definition round64 :: "real \<Rightarrow> float64" where
  "round64 x =
     (let y = binary64 x
      in if 2 ^ 1024 \<le> \<bar>y\<bar> then Infinite (0 < x) else Finite y)"

subsection \<open>Arithmetic\<close>

text \<open>
  The operations take the rounding \<open>rnd\<close> of a real result as a parameter: \<open>round64\<close> is
  double precision, \<open>Finite\<close> is exact arithmetic. The cases with an infinity or NaN
  are those of IEEE 754.
\<close>

fun fadd :: "(real \<Rightarrow> float64) \<Rightarrow> float64 \<Rightarrow> float64 \<Rightarrow> float64" where
  "fadd rnd (Finite x) (Finite y) = rnd (x + y)"
| "fadd rnd (Finite x) (Infinite q) = Infinite q"
| "fadd rnd (Infinite p) (Finite y) = Infinite p"
| "fadd rnd (Infinite p) (Infinite q) = (if p = q then Infinite p else NaN)"
| "fadd rnd NaN b = NaN"
| "fadd rnd a NaN = NaN"

fun fmul :: "(real \<Rightarrow> float64) \<Rightarrow> float64 \<Rightarrow> float64 \<Rightarrow> float64" where
  "fmul rnd (Finite x) (Finite y) = rnd (x * y)"
| "fmul rnd (Finite x) (Infinite q) = (if x = 0 then NaN else Infinite (q = (0 < x)))"
| "fmul rnd (Infinite p) (Finite y) = (if y = 0 then NaN else Infinite (p = (0 < y)))"
| "fmul rnd (Infinite p) (Infinite q) = Infinite (p = q)"
| "fmul rnd NaN b = NaN"
| "fmul rnd a NaN = NaN"

text \<open>A quotient whose divisor is not zero.\<close>

fun fdiv :: "(real \<Rightarrow> float64) \<Rightarrow> float64 \<Rightarrow> float64 \<Rightarrow> float64" where
  "fdiv rnd (Finite x) (Finite y) = rnd (x / y)"
| "fdiv rnd (Finite x) (Infinite q) = Finite 0"
| "fdiv rnd (Infinite p) (Finite y) = Infinite (p = (0 < y))"
| "fdiv rnd (Infinite p) (Infinite q) = NaN"
| "fdiv rnd NaN b = NaN"
| "fdiv rnd a NaN = NaN"

fun fsqrt :: "(real \<Rightarrow> float64) \<Rightarrow> float64 \<Rightarrow> float64" where
  "fsqrt rnd (Finite x) = (if x < 0 then NaN else rnd (sqrt x))"
| "fsqrt rnd (Infinite p) = (if p then Infinite True else NaN)"
| "fsqrt rnd NaN = NaN"

subsection \<open>The function\<close>

text \<open>
  \<open>np.dot\<close> is library code, and the order in which it adds the products is not fixed
  (it is left to the BLAS routine behind it), so \<open>_cosine_similarity\<close> takes it as the
  parameter \<open>dot\<close>. The function below is one instance: the products added up from the
  left, every step rounded.
\<close>

definition np_dot :: "(real \<Rightarrow> float64) \<Rightarrow> real list \<Rightarrow> real list \<Rightarrow> float64" where
  "np_dot rnd vec1 vec2 =
     foldl (\<lambda>acc (a, b). fadd rnd acc (fmul rnd (Finite a) (Finite b))) (Finite 0) (zip vec1 vec2)"

text \<open>
  \<open>np.linalg.norm\<close> of a vector is \<open>sqrt(x.dot(x))\<close>: the rounded square root of the dot
  product of the vector with itself.
\<close>

definition np_norm ::
  "(real \<Rightarrow> float64) \<Rightarrow> (real list \<Rightarrow> real list \<Rightarrow> float64) \<Rightarrow> real list \<Rightarrow> float64" where
  "np_norm rnd dot vec = fsqrt rnd (dot vec vec)"

text \<open>
  The result of a division of \<open>float64\<close> values: numpy does not raise on a zero divisor,
  it warns and returns an infinity or NaN, which is the outcome \<open>Divided_by_zero\<close> here.
\<close>

datatype quotient = Float float64 | Divided_by_zero

definition np_divide :: "(real \<Rightarrow> float64) \<Rightarrow> float64 \<Rightarrow> float64 \<Rightarrow> quotient" where
  "np_divide rnd x y = (if y = Finite 0 then Divided_by_zero else Float (fdiv rnd x y))"

text \<open>
  \<open>_cosine_similarity\<close>. \<open>np.dot\<close> raises \<open>ValueError\<close> for vectors of different lengths.
  \<open>norm1 == 0\<close> is false for an infinity and for NaN.
\<close>

definition cosine_similarity ::
  "(real \<Rightarrow> float64) \<Rightarrow> (real list \<Rightarrow> real list \<Rightarrow> float64) \<Rightarrow> real list \<Rightarrow> real list
     \<Rightarrow> exn + quotient" where
  "cosine_similarity rnd dot vec1 vec2 =
     (if length vec1 \<noteq> length vec2 then Inl ValueError
      else
        (let dot_product = dot vec1 vec2;
             norm1 = np_norm rnd dot vec1;
             norm2 = np_norm rnd dot vec2
         in if norm1 = Finite 0 \<or> norm2 = Finite 0 then Inr (Float (Finite 0))
            else Inr (np_divide rnd dot_product (fmul rnd norm1 norm2))))"

subsection \<open>Vocabulary of the statements\<close>

text \<open>
  \<open>float64_multiple a\<close>: \<open>a\<close> is an infinity, NaN, or an integer multiple of \<open>2^-1074\<close>, the
  least positive double. Every \<open>float64\<close> value is one, so this is what is known of the
  value of a dot product whatever the order of its additions.
\<close>

fun float64_multiple :: "float64 \<Rightarrow> bool" where
  "float64_multiple (Finite x) = (of_int \<lfloor>x * 2 ^ 1074\<rfloor> = x * 2 ^ 1074)"
| "float64_multiple (Infinite p) = True"
| "float64_multiple NaN = True"

text \<open>
  \<open>norm_value a\<close>: \<open>a\<close> is zero, at least \<open>2^-537\<close>, \<open>+inf\<close> or NaN; these are the values
  that a norm can take in double precision.
\<close>

fun norm_value :: "float64 \<Rightarrow> bool" where
  "norm_value (Finite y) = (y = 0 \<or> 2 powr of_int (- 537) \<le> y)"
| "norm_value (Infinite p) = p"
| "norm_value NaN = True"

section \<open>Properties of the list primitives\<close>

lemma py_take_length: "0 \<le> n \<Longrightarrow> int (length (py_take n xs)) \<le> n"
  by (simp add: py_take_def)

lemma py_take_length_le: "length (py_take n xs) \<le> length xs"
  by (auto simp: py_take_def)

section \<open>Properties of the rounding\<close>

text \<open>
  A real \<open>x\<close> with \<open>2^k \<le> |x| < 2^(k+1)\<close> and \<open>k\<close> at least \<open>-1022\<close> is rounded to a multiple
  of \<open>2^(k-52)\<close>: the one within half a unit of it, or the even one of the two when it
  lies halfway.
\<close>

lemma floor_log2:
  assumes "2 powr of_int k \<le> x" and "x < 2 powr (of_int k + 1)"
  shows "\<lfloor>log 2 x\<rfloor> = k"
proof (rule floor_unique)
  have pos: "0 < x" using assms(1) by (smt (verit) powr_gt_zero)
  show "of_int k \<le> log 2 x" using assms(1) pos by (simp add: le_log_iff)
  show "log 2 x < of_int k + 1" using assms(2) pos by (simp add: log_less_iff)
qed

lemma nearest_even_near:
  assumes "\<bar>z - of_int m\<bar> < 1 / 2"
  shows "nearest_even z = m"
proof (cases "of_int m \<le> z")
  case True
  then have "\<lfloor>z\<rfloor> = m" using assms by (intro floor_unique) auto
  then show ?thesis using assms True by (simp add: nearest_even_def)
next
  case False
  then have f: "\<lfloor>z\<rfloor> = m - 1" using assms by (intro floor_unique) auto
  have "1 / 2 < z - of_int (m - 1)" using assms False by auto
  then show ?thesis using f by (simp add: nearest_even_def)
qed


lemma binary64_at:
  assumes "2 powr of_int k \<le> \<bar>x\<bar>" and "\<bar>x\<bar> < 2 powr (of_int k + 1)"
      and "- 1022 \<le> k"
      and "nearest_even (x / 2 powr (of_int k - 52)) = m"
  shows "binary64 x = of_int m * 2 powr (of_int k - 52)"
proof -
  have "0 < \<bar>x\<bar>" using assms(1) by (smt (verit) powr_gt_zero)
  then have nz: "x \<noteq> 0" by simp
  have e: "\<lfloor>log 2 \<bar>x\<bar>\<rfloor> = k" by (rule floor_log2[OF assms(1,2)])
  have m: "max (k - 52) (- 1074) = k - 52" using assms(3) by simp
  show ?thesis using nz e m assms(4) by (simp add: binary64_def)
qed

lemma binary64_near:
  assumes "2 powr of_int k \<le> \<bar>x\<bar>" and "\<bar>x\<bar> < 2 powr (of_int k + 1)"
      and "- 1022 \<le> k"
      and "\<bar>x / 2 powr (of_int k - 52) - of_int m\<bar> < 1 / 2"
  shows "binary64 x = of_int m * 2 powr (of_int k - 52)"
  using assms(1-3) nearest_even_near[OF assms(4)] by (rule binary64_at)

section \<open>Reciprocal rank fusion: the fused list\<close>

subsection \<open>The stable sort\<close>

lemma insort_key_sorted_wrt:
  assumes "sorted_wrt (\<lambda>p q. f p < f q \<or> (f p = f q \<and> Q p q)) ys"
      and "\<forall>y \<in> set ys. Q x y"
  shows "sorted_wrt (\<lambda>p q. f p < f q \<or> (f p = f q \<and> Q p q)) (insort_key f x ys)"
  using assms
proof (induction ys)
  case Nil
  then show ?case by simp
next
  case (Cons y ys)
  show ?case
  proof (cases "f x \<le> f y")
    case True
    have "\<forall>z \<in> set (y # ys). f x < f z \<or> (f x = f z \<and> Q x z)"
    proof
      fix z assume z: "z \<in> set (y # ys)"
      have "f y \<le> f z" using z Cons.prems(1) by auto
      then show "f x < f z \<or> (f x = f z \<and> Q x z)"
        using True z Cons.prems(2) by force
    qed
    then show ?thesis using True Cons.prems(1) by simp
  next
    case False
    then have "f y < f x" by simp
    moreover have "sorted_wrt (\<lambda>p q. f p < f q \<or> (f p = f q \<and> Q p q)) (insort_key f x ys)"
      using Cons by simp
    ultimately show ?thesis using False Cons.prems(1) by (auto simp: set_insort_key)
  qed
qed

lemma sort_key_sorted_wrt:
  fixes f :: "'a \<Rightarrow> 'b::linorder"
  assumes "sorted_wrt Q xs"
  shows "sorted_wrt (\<lambda>p q. f p < f q \<or> (f p = f q \<and> Q p q)) (sort_key f xs)"
  using assms
proof (induction xs)
  case Nil
  then show ?case by simp
next
  case (Cons x xs)
  have "\<forall>y \<in> set (sort_key f xs). Q x y" using Cons.prems by simp
  then show ?case using Cons by (simp add: insort_key_sorted_wrt)
qed

subsection \<open>The accumulation loop\<close>

lemma seen_before_append: "seen_before xs a b \<Longrightarrow> seen_before (xs @ ys) a b"
  by (auto simp: seen_before_def takeWhile_append dest: set_takeWhileD)

lemma seen_before_new: "b \<notin> set xs \<Longrightarrow> a \<in> set xs \<Longrightarrow> seen_before (xs @ [b]) a b"
  by (simp add: seen_before_def takeWhile_append)

lemma sorted_wrt_seen_before_append:
  "sorted_wrt (seen_before xs) ks \<Longrightarrow> sorted_wrt (seen_before (xs @ ys)) ks"
  by (erule sorted_wrt_mono_rel[rotated]) (simp add: seen_before_append)

lemma find_append_iff:
  "find P (xs @ ys) = (case find P xs of None \<Rightarrow> find P ys | Some x \<Rightarrow> Some x)"
  by (induction xs) auto

lemma find_None_image: "(find (\<lambda>r. f r = key) xs = None) = (key \<notin> f ` set xs)"
  by (auto simp: find_None_iff)

lemma float_sum_snoc: "ts \<noteq> [] \<Longrightarrow> float_sum fl (ts @ [t]) = fl (float_sum fl ts + t)"
  by (cases ts) simp_all

lemma rrf_inv_empty: "rrf_inv fl hash k [] \<lparr>doc_scores = [], doc_objects = []\<rparr>"
  by (simp add: rrf_inv_def)

lemma rrf_accumulate_inv:
  assumes inv: "rrf_inv fl hash k seen acc"
      and nz: "rrf_denominator fl k (result_rank r) \<noteq> 0"
  shows "\<exists>acc'. rrf_accumulate fl hash k acc r = Inr acc' \<and> rrf_inv fl hash k (seen @ [r]) acc'"
proof (cases "doc_key hash r \<in> doc_key hash ` set seen")
  case True
  let ?key = "doc_key hash r"
  from inv True obtain s where s: "map_of (doc_scores acc) ?key = Some s"
    and sval: "s = float_sum fl (map (rrf_term fl k) (filter (\<lambda>x. doc_key hash x = ?key) seen))"
    by (auto simp: rrf_inv_def)
  let ?acc' = "acc\<lparr>doc_scores := AList.update ?key (fl (s + rrf_term fl k r)) (doc_scores acc)\<rparr>"
  have step: "rrf_accumulate fl hash k acc r = Inr ?acc'"
    using nz s by (simp add: rrf_accumulate_def Let_def doc_key_def rrf_term_def)
  have kin: "?key \<in> set (map fst (doc_scores acc))" using inv True by (simp add: rrf_inv_def)
  have keys: "map fst (doc_scores ?acc') = map fst (doc_scores acc)"
    using kin by (simp add: update_keys)
  have "rrf_inv fl hash k (seen @ [r]) ?acc'"
    unfolding rrf_inv_def
  proof (intro conjI allI)
    show "map fst (doc_objects ?acc') = map fst (doc_scores ?acc')"
      using inv keys by (simp add: rrf_inv_def)
    show "distinct (map fst (doc_scores ?acc'))" using inv keys by (simp add: rrf_inv_def)
    show "set (map fst (doc_scores ?acc')) = doc_key hash ` set (seen @ [r])"
      using inv keys True by (auto simp: rrf_inv_def)
    show "sorted_wrt (seen_before (map (doc_key hash) (seen @ [r]))) (map fst (doc_scores ?acc'))"
      using inv keys by (simp add: rrf_inv_def sorted_wrt_seen_before_append del: sorted_wrt_map)
  next
    fix key
    show "map_of (doc_scores ?acc') key =
        (if key \<in> doc_key hash ` set (seen @ [r])
         then Some (float_sum fl (map (rrf_term fl k) (filter (\<lambda>x. doc_key hash x = key) (seen @ [r]))))
         else None)"
    proof (cases "key = ?key")
      case same: True
      have "filter (\<lambda>x. doc_key hash x = ?key) seen \<noteq> []"
        using True by (auto simp: filter_empty_conv)
      then have "float_sum fl (map (rrf_term fl k) (filter (\<lambda>x. doc_key hash x = ?key) (seen @ [r]))) =
          fl (s + rrf_term fl k r)"
        by (simp add: float_sum_snoc sval)
      then show ?thesis using same True by (simp add: update_conv')
    next
      case False
      then show ?thesis using inv by (auto simp: rrf_inv_def update_conv')
    qed
  next
    fix key
    show "map_of (doc_objects ?acc') key =
        map_option document (find (\<lambda>x. doc_key hash x = key) (seen @ [r]))"
    proof (cases "key \<in> doc_key hash ` set seen")
      case True
      then obtain x where "find (\<lambda>x. doc_key hash x = key) seen = Some x"
        using find_None_image[of "doc_key hash" key seen] by auto
      then show ?thesis using inv by (simp add: rrf_inv_def find_append_iff)
    next
      case notin: False
      then have "find (\<lambda>x. doc_key hash x = key) seen = None"
        using find_None_image[of "doc_key hash" key seen] by simp
      moreover have "key \<noteq> doc_key hash r" using notin True by blast
      ultimately show ?thesis using inv by (simp add: rrf_inv_def find_append_iff)
    qed
  qed
  with step show ?thesis by blast
next
  case False
  let ?key = "doc_key hash r"
  from inv False have none: "map_of (doc_scores acc) ?key = None"
    by (simp add: rrf_inv_def)
  let ?acc' = "acc\<lparr>doc_scores := AList.update ?key (rrf_term fl k r) (doc_scores acc),
                    doc_objects := AList.update ?key (document r) (doc_objects acc)\<rparr>"
  have step: "rrf_accumulate fl hash k acc r = Inr ?acc'"
    using nz none by (simp add: rrf_accumulate_def Let_def doc_key_def rrf_term_def)
  have knin: "?key \<notin> set (map fst (doc_scores acc))" using inv False by (simp add: rrf_inv_def)
  have knin': "?key \<notin> set (map fst (doc_objects acc))" using inv False by (simp add: rrf_inv_def)
  have keys: "map fst (doc_scores ?acc') = map fst (doc_scores acc) @ [?key]"
    using knin by (simp add: update_keys)
  have keys': "map fst (doc_objects ?acc') = map fst (doc_objects acc) @ [?key]"
    using knin' by (simp add: update_keys)
  have "rrf_inv fl hash k (seen @ [r]) ?acc'"
    unfolding rrf_inv_def
  proof (intro conjI allI)
    show "map fst (doc_objects ?acc') = map fst (doc_scores ?acc')"
      using inv keys keys' by (simp add: rrf_inv_def)
    show "distinct (map fst (doc_scores ?acc'))" using inv keys knin by (simp add: rrf_inv_def)
    show "set (map fst (doc_scores ?acc')) = doc_key hash ` set (seen @ [r])"
      using inv keys by (auto simp: rrf_inv_def)
    have a: "sorted_wrt (seen_before (map (doc_key hash) (seen @ [r]))) (map fst (doc_scores acc))"
      using inv by (simp add: rrf_inv_def sorted_wrt_seen_before_append del: sorted_wrt_map)
    have b: "\<forall>x \<in> set (map fst (doc_scores acc)). seen_before (map (doc_key hash) (seen @ [r])) x ?key"
      using inv False by (auto simp: rrf_inv_def intro!: seen_before_new)
    show "sorted_wrt (seen_before (map (doc_key hash) (seen @ [r]))) (map fst (doc_scores ?acc'))"
      unfolding keys using a b by (simp add: sorted_wrt_append del: sorted_wrt_map)
  next
    fix key
    show "map_of (doc_scores ?acc') key =
        (if key \<in> doc_key hash ` set (seen @ [r])
         then Some (float_sum fl (map (rrf_term fl k) (filter (\<lambda>x. doc_key hash x = key) (seen @ [r]))))
         else None)"
    proof -
      have "filter (\<lambda>x. doc_key hash x = doc_key hash r) seen = []"
        using False by (simp add: filter_empty_conv) (metis imageI)
      then show ?thesis using inv False by (auto simp: rrf_inv_def update_conv')
    qed
  next
    fix key
    show "map_of (doc_objects ?acc') key =
        map_option document (find (\<lambda>x. doc_key hash x = key) (seen @ [r]))"
    proof (cases "key \<in> doc_key hash ` set seen")
      case True
      then obtain x where "find (\<lambda>x. doc_key hash x = key) seen = Some x"
        using find_None_image[of "doc_key hash" key seen] by auto
      moreover have "key \<noteq> doc_key hash r" using True False by blast
      ultimately show ?thesis using inv by (simp add: rrf_inv_def find_append_iff update_conv')
    next
      case notin: False
      then have "find (\<lambda>x. doc_key hash x = key) seen = None"
        using find_None_image[of "doc_key hash" key seen] by simp
      then show ?thesis using inv by (auto simp: rrf_inv_def find_append_iff update_conv')
    qed
  qed
  with step show ?thesis by blast
qed


lemma rrf_results_inv:
  assumes "rrf_inv fl hash k seen acc"
      and "\<forall>r \<in> set rs. rrf_denominator fl k (result_rank r) \<noteq> 0"
  shows "\<exists>acc'. rrf_results fl hash k acc rs = Inr acc' \<and> rrf_inv fl hash k (seen @ rs) acc'"
  using assms
proof (induction rs arbitrary: acc seen)
  case Nil
  then show ?case by simp
next
  case (Cons r rs)
  from Cons.prems obtain acc1 where
    a1: "rrf_accumulate fl hash k acc r = Inr acc1" and i1: "rrf_inv fl hash k (seen @ [r]) acc1"
    using rrf_accumulate_inv[of fl hash k seen acc r] by auto
  from Cons.IH[OF i1] Cons.prems(2) obtain acc' where
    "rrf_results fl hash k acc1 rs = Inr acc'" "rrf_inv fl hash k ((seen @ [r]) @ rs) acc'"
    by auto
  with a1 show ?case by simp
qed

lemma rrf_lists_inv:
  assumes "rrf_inv fl hash k seen acc"
      and "\<forall>r \<in> set (concat ls). rrf_denominator fl k (result_rank r) \<noteq> 0"
  shows "\<exists>acc'. rrf_lists fl hash k acc ls = Inr acc' \<and> rrf_inv fl hash k (seen @ concat ls) acc'"
  using assms
proof (induction ls arbitrary: acc seen)
  case Nil
  then show ?case by simp
next
  case (Cons l ls)
  from Cons.prems obtain acc1 where
    a1: "rrf_results fl hash k acc l = Inr acc1" and i1: "rrf_inv fl hash k (seen @ l) acc1"
    using rrf_results_inv[of fl hash k seen acc l] by auto
  from Cons.IH[OF i1] Cons.prems(2) obtain acc' where
    "rrf_lists fl hash k acc1 ls = Inr acc'" "rrf_inv fl hash k ((seen @ l) @ concat ls) acc'"
    by auto
  with a1 show ?case by simp
qed

lemma rrf_build_closed:
  assumes "fst ` set items \<subseteq> fst ` set objs"
  shows "rrf_build objs pre items =
           Inr (pre @ map (fused_entry objs) (enumerate (length pre) items))"
  using assms
proof (induction items arbitrary: pre)
  case Nil
  then show ?case by simp
next
  case (Cons it items)
  obtain key s where it: "it = (key, s)" by (cases it)
  from Cons.prems it have "key \<in> fst ` set objs" by auto
  then obtain d where d: "map_of objs key = Some d"
    by (metis domD dom_map_of_conv_image_fst)
  have sub: "fst ` set items \<subseteq> fst ` set objs" using Cons.prems by auto
  show ?case using d it Cons.IH[OF sub] by (simp add: fused_entry_def)
qed

subsection \<open>The fused list\<close>


lemma rrf_inv_object_key:
  assumes "rrf_inv fl hash k seen acc" and "key \<in> fst ` set (doc_scores acc)"
  shows "hash (page_content (the (map_of (doc_objects acc) key))) = key"
proof -
  from assms have "key \<in> doc_key hash ` set seen" by (simp add: rrf_inv_def)
  then obtain x where x: "find (\<lambda>r. doc_key hash r = key) seen = Some x"
    using find_None_image[of "doc_key hash" key seen] by auto
  then have "doc_key hash x = key" by (auto simp: find_Some_iff)
  moreover have "map_of (doc_objects acc) key = Some (document x)"
    using assms(1) x by (simp add: rrf_inv_def)
  ultimately show ?thesis by (simp add: doc_key_def)
qed

lemma rrf_output:
  assumes "\<forall>r \<in> set (concat ls). rrf_denominator fl k (result_rank r) \<noteq> 0"
  shows "\<exists>acc. rrf_inv fl hash k (concat ls) acc \<and>
           reciprocal_rank_fusion fl hash ls k =
             Inr (map (fused_entry (doc_objects acc)) (enumerate 0 (sorted_docs (doc_scores acc))))"
proof -
  from rrf_lists_inv[OF rrf_inv_empty assms, of hash] obtain acc where
    run: "rrf_lists fl hash k \<lparr>doc_scores = [], doc_objects = []\<rparr> ls = Inr acc"
    and inv: "rrf_inv fl hash k (concat ls) acc" by auto
  have "fst ` set (sorted_docs (doc_scores acc)) \<subseteq> fst ` set (doc_objects acc)"
  proof -
    have "fst ` set (doc_objects acc) = set (map fst (doc_objects acc))" by simp
    also have "\<dots> = set (map fst (doc_scores acc))" using inv by (simp only: rrf_inv_def)
    finally show ?thesis by (simp add: sorted_docs_def)
  qed
  from rrf_build_closed[OF this, of "[]"] run inv show ?thesis
    by (auto simp: reciprocal_rank_fusion_def)
qed

lemma map_enumerate_snd: "map (\<lambda>p. g (snd p)) (enumerate n xs) = map g xs"
  by (induction xs arbitrary: n) simp_all

lemma map_enumerate_fst: "map (\<lambda>p. g (fst p)) (enumerate n xs) = map g [n..<n + length xs]"
proof -
  have "map g (map fst (enumerate n xs)) = map (\<lambda>p. g (fst p)) (enumerate n xs)"
    by (simp only: map_map comp_def)
  then show ?thesis unfolding map_fst_enumerate by (rule sym)
qed

lemma in_enumerate_snd: "p \<in> set (enumerate n xs) \<Longrightarrow> snd p \<in> set xs"
  by (metis imageI map_snd_enumerate set_map)


lemma fused_scores:
  "map score (map (fused_entry objs) (enumerate n items)) = map (\<lambda>x. Some (snd x)) items"
proof -
  have "map score (map (fused_entry objs) (enumerate n items)) =
          map (\<lambda>p. Some (snd (snd p))) (enumerate n items)"
    by (simp add: fused_entry_def comp_def)
  also have "\<dots> = map (\<lambda>x. Some (snd x)) items"
    by (rule map_enumerate_snd[of "\<lambda>x. Some (snd x)"])
  finally show ?thesis .
qed

lemma fused_ranks:
  "map rank (map (fused_entry objs) (enumerate n items)) =
     map (\<lambda>i. Some (int i + 1)) [n..<n + length items]"
proof -
  have "map rank (map (fused_entry objs) (enumerate n items)) =
          map (\<lambda>p. Some (int (fst p) + 1)) (enumerate n items)"
    by (simp add: fused_entry_def comp_def)
  also have "\<dots> = map (\<lambda>i. Some (int i + 1)) [n..<n + length items]"
    by (rule map_enumerate_fst[of "\<lambda>i. Some (int i + 1)"])
  finally show ?thesis .
qed

subsection \<open>The fused score\<close>





text \<open>The fused list of the sample input, in exact arithmetic.\<close>

lemma rrf_score_example:
  "reciprocal_rank_fusion (\<lambda>x. x) demo_hash
     [[demo_result ''python loops'' 3 1, demo_result ''python basics'' 2 2],
      [demo_result ''python basics'' (9/10) 1, demo_result ''closures'' (1/2) 2]] 60 =
   Inr [\<lparr>document = \<lparr>page_content = ''python basics'', metadata = []\<rparr>,
          score = Some (1 / 62 + 1 / 61), rank = Some 1\<rparr>,
        \<lparr>document = \<lparr>page_content = ''python loops'', metadata = []\<rparr>,
          score = Some (1 / 61), rank = Some 2\<rparr>,
        \<lparr>document = \<lparr>page_content = ''closures'', metadata = []\<rparr>,
          score = Some (1 / 62), rank = Some 3\<rparr>]"
  by code_simp

subsection \<open>A document that one list holds twice\<close>







subsection \<open>The order of the fused list\<close>

lemma sorted_docs_order:
  assumes "rrf_inv fl hash k seen acc"
  shows "sorted_wrt
           (\<lambda>p q. snd q < snd p \<or>
                  (snd p = snd q \<and> seen_before (map (doc_key hash) seen) (fst p) (fst q)))
           (sorted_docs (doc_scores acc))"
proof -
  have "sorted_wrt (seen_before (map (doc_key hash) seen)) (map fst (doc_scores acc))"
    using assms by (simp only: rrf_inv_def)
  then have "sorted_wrt (\<lambda>p q. seen_before (map (doc_key hash) seen) (fst p) (fst q)) (doc_scores acc)"
    by (simp only: sorted_wrt_map)
  from sort_key_sorted_wrt[OF this, of "\<lambda>x. - snd x"]
  show ?thesis by (simp add: sorted_docs_def)
qed

text \<open>
  Claim C7. The fusion is a function of \<open>results_list\<close> and \<open>k\<close> (and of the process's
  \<open>hash\<close>): it reads no other state, so two calls on the same lists return the same list.
  That list is fixed by the input as follows: it is sorted by fused score, highest first;
  of two results with equal scores, the one whose document was seen first in the input
  lists (read list by list, entry by entry) comes first; and the ranks are 1, 2, ..., N.
\<close>

theorem rrf_order_deterministic:
  assumes "\<forall>r \<in> set (concat results_list). rrf_denominator fl k (result_rank r) \<noteq> 0"
  shows "\<exists>fused. reciprocal_rank_fusion fl hash results_list k = Inr fused \<and>
           (\<forall>res \<in> set fused. score res \<noteq> None) \<and>
           sorted_wrt
             (\<lambda>a b. the (score b) < the (score a) \<or>
                    (the (score a) = the (score b) \<and>
                     seen_before (map (doc_key hash) (concat results_list))
                       (doc_key hash a) (doc_key hash b)))
             fused \<and>
           map rank fused = map (\<lambda>i. Some (int i + 1)) [0..<length fused]"
proof -
  from rrf_output[OF assms, of hash] obtain acc where
    inv: "rrf_inv fl hash k (concat results_list) acc" and
    out: "reciprocal_rank_fusion fl hash results_list k =
            Inr (map (fused_entry (doc_objects acc)) (enumerate 0 (sorted_docs (doc_scores acc))))"
    by auto
  let ?items = "sorted_docs (doc_scores acc)"
  let ?en = "enumerate 0 ?items"
  let ?fused = "map (fused_entry (doc_objects acc)) ?en"
  let ?keys = "map (doc_key hash) (concat results_list)"
  have some: "\<forall>res \<in> set ?fused. score res \<noteq> None"
    by (auto simp: fused_entry_def)
  have ranks: "map rank ?fused = map (\<lambda>i. Some (int i + 1)) [0..<length ?fused]"
    using fused_ranks[of "doc_objects acc" 0 ?items] by simp
  have key: "\<And>p. p \<in> set ?en \<Longrightarrow> doc_key hash (fused_entry (doc_objects acc) p) = fst (snd p)"
  proof -
    fix p assume "p \<in> set ?en"
    then have "snd p \<in> set ?items" by (rule in_enumerate_snd)
    then have "fst (snd p) \<in> fst ` set (doc_scores acc)" by (auto simp: sorted_docs_def)
    from rrf_inv_object_key[OF inv this]
    show "doc_key hash (fused_entry (doc_objects acc) p) = fst (snd p)"
      by (simp add: doc_key_def fused_entry_def)
  qed
  have "sorted_wrt (\<lambda>p q. snd q < snd p \<or> (snd p = snd q \<and> seen_before ?keys (fst p) (fst q)))
          (map snd ?en)"
    using sorted_docs_order[OF inv] by (simp only: map_snd_enumerate)
  then have en: "sorted_wrt
      (\<lambda>p q. snd (snd q) < snd (snd p) \<or>
             (snd (snd p) = snd (snd q) \<and> seen_before ?keys (fst (snd p)) (fst (snd q)))) ?en"
    by (simp only: sorted_wrt_map)
  have "sorted_wrt
      (\<lambda>p q. the (score (fused_entry (doc_objects acc) q)) < the (score (fused_entry (doc_objects acc) p)) \<or>
             (the (score (fused_entry (doc_objects acc) p)) = the (score (fused_entry (doc_objects acc) q)) \<and>
              seen_before ?keys (doc_key hash (fused_entry (doc_objects acc) p))
                (doc_key hash (fused_entry (doc_objects acc) q)))) ?en"
  proof (rule sorted_wrt_mono_rel[OF _ en])
    fix p q assume p: "p \<in> set ?en" and q: "q \<in> set ?en"
      and r: "snd (snd q) < snd (snd p) \<or>
             (snd (snd p) = snd (snd q) \<and> seen_before ?keys (fst (snd p)) (fst (snd q)))"
    have sp: "the (score (fused_entry (doc_objects acc) p)) = snd (snd p)"
      and sq: "the (score (fused_entry (doc_objects acc) q)) = snd (snd q)"
      by (simp_all add: fused_entry_def)
    show "the (score (fused_entry (doc_objects acc) q)) < the (score (fused_entry (doc_objects acc) p)) \<or>
             (the (score (fused_entry (doc_objects acc) p)) = the (score (fused_entry (doc_objects acc) q)) \<and>
              seen_before ?keys (doc_key hash (fused_entry (doc_objects acc) p))
                (doc_key hash (fused_entry (doc_objects acc) q)))"
      using r unfolding sp sq key[OF p] key[OF q] .
  qed
  then have ord: "sorted_wrt
             (\<lambda>a b. the (score b) < the (score a) \<or>
                    (the (score a) = the (score b) \<and>
                     seen_before ?keys (doc_key hash a) (doc_key hash b))) ?fused"
    by (simp only: sorted_wrt_map)
  from out some ord ranks show ?thesis by blast
qed

theorem rrf_order_deterministic_witness:
  "\<exists>fused.
     reciprocal_rank_fusion (\<lambda>x. x) demo_hash
       [[demo_result ''python loops'' 3 1, demo_result ''python basics'' 2 2],
        [demo_result ''closures'' (9/10) 1, demo_result ''python basics'' (1/2) 2]] 60 = Inr fused \<and>
     (\<forall>res \<in> set fused. score res \<noteq> None) \<and>
     sorted_wrt
       (\<lambda>a b. the (score b) < the (score a) \<or>
              (the (score a) = the (score b) \<and>
               seen_before
                 (map (doc_key demo_hash)
                    (concat [[demo_result ''python loops'' 3 1, demo_result ''python basics'' 2 2],
                             [demo_result ''closures'' (9/10) 1, demo_result ''python basics'' (1/2) 2]]))
                 (doc_key demo_hash a) (doc_key demo_hash b)))
       fused \<and>
     map rank fused = map (\<lambda>i. Some (int i + 1)) [0..<length fused]"
  by (rule rrf_order_deterministic) (simp add: demo_result_def result_rank_def rrf_denominator_def)

text \<open>The sample input of the witness: two docs tie at \<open>1/61\<close>.\<close>

lemma rrf_tie_example:
  "reciprocal_rank_fusion (\<lambda>x. x) demo_hash
     [[demo_result ''python loops'' 3 1, demo_result ''python basics'' 2 2],
      [demo_result ''closures'' (9/10) 1, demo_result ''python basics'' (1/2) 2]] 60 =
   Inr [\<lparr>document = \<lparr>page_content = ''python basics'', metadata = []\<rparr>,
          score = Some (1 / 31), rank = Some 1\<rparr>,
        \<lparr>document = \<lparr>page_content = ''python loops'', metadata = []\<rparr>,
          score = Some (1 / 61), rank = Some 2\<rparr>,
        \<lparr>document = \<lparr>page_content = ''closures'', metadata = []\<rparr>,
          score = Some (1 / 61), rank = Some 3\<rparr>]"
  by code_simp

section \<open>Fusion and reranking: the size of the result\<close>

lemma original_order_length:
  "length (original_order docs top_k) = length (py_take top_k docs)"
  by (simp add: original_order_def)

lemma cohere_build_length:
  "cohere_build docs reranked results = Inr out \<Longrightarrow>
     length out = length reranked + length results"
proof (induction results arbitrary: reranked)
  case Nil
  then show ?case by simp
next
  case (Cons result rest)
  then show ?case by (auto split: sum.splits)
qed

lemma rerank_local_length:
  "length (rerank_local predict query docs top_k) \<le> length docs"
proof (cases "predict (map (\<lambda>doc. (query, page_content doc)) docs)")
  case (Inl e)
  then show ?thesis
    by (simp add: rerank_local_def original_order_length py_take_length_le)
next
  case (Inr scores)
  have "length (py_take top_k (sort_key (\<lambda>x. - snd x) (zip docs scores)))
          \<le> length (sort_key (\<lambda>x. - snd x) (zip docs scores))"
    by (rule py_take_length_le)
  then show ?thesis using Inr by (simp add: rerank_local_def Let_def)
qed

lemma rerank_local_top_k:
  "0 \<le> top_k \<Longrightarrow> int (length (rerank_local predict query docs top_k)) \<le> top_k"
  by (cases "predict (map (\<lambda>doc. (query, page_content doc)) docs)")
     (simp_all add: rerank_local_def original_order_length py_take_length Let_def)

lemma rerank_cohere_length:
  assumes "\<forall>results. client query (map page_content docs) top_k = Inr results \<longrightarrow>
             length results \<le> n"
      and "length (py_take top_k docs) \<le> n"
  shows "length (rerank_cohere client query docs top_k) \<le> n"
proof (cases "client query (map page_content docs) top_k")
  case (Inl e)
  then show ?thesis using assms(2) by (simp add: rerank_cohere_def original_order_length)
next
  case (Inr results)
  show ?thesis
  proof (cases "cohere_build docs [] results")
    case (Inl e)
    then show ?thesis using Inr assms(2) by (simp add: rerank_cohere_def original_order_length)
  next
    case built: (Inr reranked)
    from cohere_build_length[OF built] assms(1) Inr show ?thesis
      using Inr built by (simp add: rerank_cohere_def)
  qed
qed

text \<open>
  Without a bound on what the service returns, the Cohere path has none either: one
  document and \<open>top_k = 1\<close> in, two results out.
\<close>

lemma rerank_follows_service:
  "rerank \<lparr>use_local = False, cohere_client = Some chatty_cohere, cross_encoder = None\<rparr>
     ''python'' [\<lparr>page_content = ''python loops'', metadata = []\<rparr>] 1 =
   [\<lparr>document = \<lparr>page_content = ''python loops'', metadata = []\<rparr>,
      score = Some 1, rank = Some 1\<rparr>,
    \<lparr>document = \<lparr>page_content = ''python loops'', metadata = []\<rparr>,
      score = Some (1 / 2), rank = Some 2\<rparr>]"
  by (simp add: rerank_def rerank_cohere_def chatty_cohere_def py_index_def)

text \<open>
  Claim C2, as the code has it. \<open>reciprocal_rank_fusion\<close> takes no \<open>top_k\<close>: it returns
  one result per distinct content hash of its input, so at most as many results as the
  input lists hold together, and its caller cuts the list (\<open>fused_results[:HYBRID_TOP_K]\<close>).
  \<open>Reranker.rerank\<close> returns at most \<open>top_k\<close> results and at most as many as it was given
  docs, for \<open>top_k \<ge> 0\<close> and a rerank service that returns at most \<open>top_n\<close> results
  and at most one per document.
\<close>

theorem stage_sizes:
  assumes "\<forall>r \<in> set (concat results_list). rrf_denominator fl k (result_rank r) \<noteq> 0"
      and "0 \<le> top_k"
      and "\<forall>client results.
             cohere_client self = Some client \<and>
             client query (map page_content docs) top_k = Inr results \<longrightarrow>
               int (length results) \<le> top_k \<and> length results \<le> length docs"
  shows "(\<exists>fused. reciprocal_rank_fusion fl hash results_list k = Inr fused \<and>
            length fused = card (doc_key hash ` set (concat results_list)) \<and>
            length fused \<le> length (concat results_list)) \<and>
         int (length (rerank self query docs top_k)) \<le> top_k \<and>
         length (rerank self query docs top_k) \<le> length docs"
proof (intro conjI)
  from rrf_output[OF assms(1), of hash] obtain acc where
    inv: "rrf_inv fl hash k (concat results_list) acc" and
    out: "reciprocal_rank_fusion fl hash results_list k =
            Inr (map (fused_entry (doc_objects acc)) (enumerate 0 (sorted_docs (doc_scores acc))))"
    by auto
  let ?fused = "map (fused_entry (doc_objects acc)) (enumerate 0 (sorted_docs (doc_scores acc)))"
  have len: "length ?fused = length (map fst (doc_scores acc))" by (simp add: sorted_docs_def)
  have d: "distinct (map fst (doc_scores acc))" using inv by (simp only: rrf_inv_def)
  have s: "set (map fst (doc_scores acc)) = doc_key hash ` set (concat results_list)"
    using inv by (simp only: rrf_inv_def)
  have c: "length ?fused = card (doc_key hash ` set (concat results_list))"
    using distinct_card[OF d] len s by simp
  have "card (doc_key hash ` set (concat results_list)) \<le> card (set (concat results_list))"
    by (rule card_image_le) simp
  also have "\<dots> \<le> length (concat results_list)" by (rule card_length)
  finally have "length ?fused \<le> length (concat results_list)" using c by simp
  with out c show "\<exists>fused. reciprocal_rank_fusion fl hash results_list k = Inr fused \<and>
            length fused = card (doc_key hash ` set (concat results_list)) \<and>
            length fused \<le> length (concat results_list)" by blast
next
  show "int (length (rerank self query docs top_k)) \<le> top_k"
  proof (cases "docs = []")
    case True
    then show ?thesis using assms(2) by (simp add: rerank_def)
  next
    case False
    show ?thesis
    proof (cases "if use_local self then cross_encoder self else None")
      case (Some predict)
      then show ?thesis using False rerank_local_top_k[OF assms(2)] by (simp add: rerank_def)
    next
      case None
      show ?thesis
      proof (cases "cohere_client self")
        case no: None
        then show ?thesis using False None py_take_length[OF assms(2)]
          by (simp add: rerank_def original_order_length)
      next
        case (Some client)
        have a: "\<forall>results. client query (map page_content docs) top_k = Inr results \<longrightarrow>
                   length results \<le> nat top_k"
        proof (intro allI impI)
          fix results assume "client query (map page_content docs) top_k = Inr results"
          with assms(3) Some have "int (length results) \<le> top_k" by blast
          then show "length results \<le> nat top_k" by simp
        qed
        have b: "length (py_take top_k docs) \<le> nat top_k"
          using py_take_length[OF assms(2), of docs] by simp
        from rerank_cohere_length[of client query docs top_k "nat top_k", OF a b] show ?thesis
          using False None Some assms(2) by (simp add: rerank_def)
      qed
    qed
  qed
next
  show "length (rerank self query docs top_k) \<le> length docs"
  proof (cases "docs = []")
    case True
    then show ?thesis by (simp add: rerank_def)
  next
    case False
    show ?thesis
    proof (cases "if use_local self then cross_encoder self else None")
      case (Some predict)
      then show ?thesis using False rerank_local_length by (simp add: rerank_def)
    next
      case None
      show ?thesis
      proof (cases "cohere_client self")
        case no: None
        then show ?thesis using False None
          by (simp add: rerank_def original_order_length py_take_length_le)
      next
        case (Some client)
        have a: "\<forall>results. client query (map page_content docs) top_k = Inr results \<longrightarrow>
                   length results \<le> length docs"
          using assms(3) Some by blast
        from rerank_cohere_length[of client query docs top_k "length docs", OF a py_take_length_le]
        show ?thesis
          using False None Some by (simp add: rerank_def)
      qed
    qed
  qed
qed

theorem stage_sizes_witness:
  "(\<exists>fused.
      reciprocal_rank_fusion (\<lambda>x. x) demo_hash
        [[demo_result ''python loops'' 3 1], [demo_result ''closures'' (9/10) 1]] 60 = Inr fused \<and>
      length fused =
        card (doc_key demo_hash `
                set (concat [[demo_result ''python loops'' 3 1], [demo_result ''closures'' (9/10) 1]])) \<and>
      length fused \<le>
        length (concat [[demo_result ''python loops'' 3 1], [demo_result ''closures'' (9/10) 1]])) \<and>
   int (length (rerank \<lparr>use_local = False, cohere_client = Some demo_cohere, cross_encoder = None\<rparr>
                  ''python'' demo_docs 2)) \<le> 2 \<and>
   length (rerank \<lparr>use_local = False, cohere_client = Some demo_cohere, cross_encoder = None\<rparr>
             ''python'' demo_docs 2) \<le> length demo_docs"
  by (rule stage_sizes) (auto simp: demo_result_def result_rank_def rrf_denominator_def demo_cohere_def demo_docs_def)

text \<open>
  The claim as stated fails for the fusion stage: two retrievers asked for one result
  each (\<open>top_k = 1\<close>) return one result each, and the fused list has two.
\<close>

theorem fusion_exceeds_top_k_counterexample:
  "length [demo_result ''python loops'' 3 1] \<le> 1 \<and>
   length [demo_result ''closures'' (9/10) 1] \<le> 1 \<and>
   reciprocal_rank_fusion (\<lambda>x. x) demo_hash
     [[demo_result ''python loops'' 3 1], [demo_result ''closures'' (9/10) 1]] 60 =
   Inr [\<lparr>document = \<lparr>page_content = ''python loops'', metadata = []\<rparr>,
          score = Some (1 / 61), rank = Some 1\<rparr>,
        \<lparr>document = \<lparr>page_content = ''closures'', metadata = []\<rparr>,
          score = Some (1 / 61), rank = Some 2\<rparr>] \<and>
   \<not> length [\<lparr>document = \<lparr>page_content = ''python loops'', metadata = []\<rparr>,
                 score = Some (1 / 61 :: real), rank = Some (1 :: int)\<rparr>,
               \<lparr>document = \<lparr>page_content = ''closures'', metadata = []\<rparr>,
                 score = Some (1 / 61), rank = Some 2\<rparr>] \<le> 1"
  by code_simp

section \<open>Keyword index: the results of a search\<close>








lemma bm25_search_example:
  "search demo_argsort demo_retriever ''python'' 2 =
     Inr [\<lparr>document = \<lparr>page_content = ''Variables in Python'', metadata = []\<rparr>,
            score = Some 1, rank = Some 1\<rparr>,
          \<lparr>document = \<lparr>page_content = ''Python loops and functions'', metadata = []\<rparr>,
            score = Some 1, rank = Some 2\<rparr>]"
  by code_simp

lemma bm25_search_fewer_than_top_k:
  "search demo_argsort demo_retriever ''closures'' 2 =
     Inr [\<lparr>document = \<lparr>page_content = ''JavaScript closures'', metadata = []\<rparr>,
            score = Some 1, rank = Some 1\<rparr>]"
  by code_simp

section \<open>Query rewriter: failure of the generation call\<close>

lemma rewrite_answer_example:
  "rewrite (demo_rewriter answering_client) ''ML'' =
     Inr ''machine learning algorithms and models''"
  by code_simp

text \<open>
  Claim C8. \<open>rewrite\<close> never raises: it always returns a string. When the generation
  call raises, whatever the error, and also when the response has no choice or no text,
  the string returned is the original query.
\<close>

theorem rewrite_never_raises:
  "(\<exists>s. rewrite self query = Inr s) \<and>
   (\<forall>client e.
      qr_client self = Some client \<and>
      client (qr_model self) (rewrite_messages query) (3 / 10) (qr_max_tokens self) = Inl e
        \<longrightarrow> rewrite self query = Inr query) \<and>
   (\<forall>client choices.
      qr_client self = Some client \<and>
      client (qr_model self) (rewrite_messages query) (3 / 10) (qr_max_tokens self) = Inr choices \<and>
      (choices = [] \<or> hd choices = None)
        \<longrightarrow> rewrite self query = Inr query)"
proof (intro conjI allI impI)
  show "\<exists>s. rewrite self query = Inr s"
    by (auto simp: rewrite_def split: option.splits sum.splits)
next
  fix client e
  assume "qr_client self = Some client \<and>
      client (qr_model self) (rewrite_messages query) (3 / 10) (qr_max_tokens self) = Inl e"
  then show "rewrite self query = Inr query"
    by (simp add: rewrite_def rewrite_body_def)
next
  fix client choices
  assume a: "qr_client self = Some client \<and>
      client (qr_model self) (rewrite_messages query) (3 / 10) (qr_max_tokens self) = Inr choices \<and>
      (choices = [] \<or> hd choices = None)"
  then have "rewrite_body client self query = Inl IndexError \<or>
             rewrite_body client self query = Inl AttributeError"
    by (cases choices) (auto simp: rewrite_body_def)
  then show "rewrite self query = Inr query"
    using a by (auto simp: rewrite_def)
qed

theorem rewrite_never_raises_witness:
  "rewrite (demo_rewriter failing_client) ''ML'' = Inr ''ML''"
proof -
  have "qr_client (demo_rewriter failing_client) = Some failing_client \<and>
        failing_client (qr_model (demo_rewriter failing_client)) (rewrite_messages ''ML'') (3 / 10)
          (qr_max_tokens (demo_rewriter failing_client)) = Inl (Exception ''Request timed out.'')"
    by (simp add: demo_rewriter_def failing_client_def)
  with rewrite_never_raises[of "demo_rewriter failing_client" "''ML''"] show ?thesis by blast
qed

section \<open>Schema repair: when a statement is executed\<close>

subsection \<open>Parsing the message\<close>

lemma after_first_decomp:
  "after_first sep s = Some rest \<Longrightarrow> \<exists>before. s = before @ sep @ rest"
proof (induction s)
  case Nil
  then show ?case by (simp split: if_splits)
next
  case (Cons c cs)
  show ?case
  proof (cases "prefix sep (c # cs)")
    case True
    then have "rest = drop (length sep) (c # cs)" using Cons.prems by simp
    moreover from True obtain zs where "c # cs = sep @ zs" by (auto simp: prefix_def)
    ultimately have "c # cs = [] @ sep @ rest" by simp
    then show ?thesis by blast
  next
    case False
    then have "after_first sep cs = Some rest" using Cons.prems by simp
    from Cons.IH[OF this] obtain before where "cs = before @ sep @ rest" by blast
    then have "c # cs = (c # before) @ sep @ rest" by simp
    then show ?thesis by blast
  qed
qed

lemma split_from_token:
  "tok \<noteq> [] \<Longrightarrow>
     split_from tok s =
       (tok @ takeWhile (\<lambda>c. \<not> isspace c) s) # split_from [] (dropWhile (\<lambda>c. \<not> isspace c) s)"
proof (induction s arbitrary: tok)
  case Nil
  then show ?case by simp
next
  case (Cons c cs)
  then show ?case by simp
qed

lemma split_skip_space: "split_from [] s = split_from [] (dropWhile isspace s)"
  by (induction s) simp_all

lemma split_first:
  assumes "split s = tok # toks"
  shows "tok = takeWhile (\<lambda>c. \<not> isspace c) (dropWhile isspace s) \<and> tok \<noteq> []"
proof (cases "dropWhile isspace s")
  case Nil
  have "split s = split_from [] (dropWhile isspace s)"
    unfolding split_def by (rule split_skip_space)
  then have "split s = []" unfolding Nil by simp
  then show ?thesis using assms by simp
next
  case (Cons c cs)
  then have nsp: "\<not> isspace c" using hd_dropWhile[of isspace s] by fastforce
  have "split s = split_from [] (c # cs)" using split_skip_space[of s] Cons by (simp add: split_def)
  also have "\<dots> = split_from [c] cs" using nsp by simp
  also have "\<dots> = ([c] @ takeWhile (\<lambda>c. \<not> isspace c) cs) # split_from [] (dropWhile (\<lambda>c. \<not> isspace c) cs)"
    by (rule split_from_token) simp
  finally have "tok = [c] @ takeWhile (\<lambda>c. \<not> isspace c) cs" using assms by simp
  then show ?thesis using Cons nsp by simp
qed

lemma split_first_decomp:
  assumes "split s = tok # toks"
  shows "\<exists>ws after. s = ws @ tok @ after \<and> (\<forall>c \<in> set ws. isspace c) \<and>
           (after = [] \<or> isspace (hd after))"
proof -
  let ?s' = "dropWhile isspace s"
  from split_first[OF assms] have tok: "tok = takeWhile (\<lambda>c. \<not> isspace c) ?s'" by simp
  let ?after = "dropWhile (\<lambda>c. \<not> isspace c) ?s'"
  have "s = takeWhile isspace s @ ?s'" by simp
  also have "?s' = tok @ ?after" unfolding tok by simp
  finally have "s = takeWhile isspace s @ tok @ ?after" .
  moreover have "\<forall>c \<in> set (takeWhile isspace s). isspace c" by (auto dest: set_takeWhileD)
  moreover have "?after = [] \<or> isspace (hd ?after)"
    using hd_dropWhile[of "\<lambda>c. \<not> isspace c" ?s'] by auto
  ultimately show ?thesis by blast
qed

lemma strip_decomp:
  "\<exists>l r. s = l @ strip chars s @ r \<and> set l \<subseteq> set chars \<and> set r \<subseteq> set chars"
proof -
  let ?P = "\<lambda>c. c \<in> set chars"
  let ?m = "dropWhile ?P s"
  let ?r = "rev (takeWhile ?P (rev ?m))"
  have "rev (takeWhile ?P (rev ?m) @ dropWhile ?P (rev ?m)) = rev (rev ?m)"
    by (simp only: takeWhile_dropWhile_id)
  then have "rev (dropWhile ?P (rev ?m)) @ ?r = ?m"
    by (simp only: rev_append rev_rev_ident)
  then have m: "?m = strip chars s @ ?r" by (simp only: strip_def)
  have "s = takeWhile ?P s @ ?m" by simp
  then have "s = takeWhile ?P s @ strip chars s @ ?r" using m by simp
  moreover have "set (takeWhile ?P s) \<subseteq> set chars" by (auto dest: set_takeWhileD)
  moreover have "set ?r \<subseteq> set chars" by (auto dest: set_takeWhileD)
  ultimately show ?thesis by blast
qed

lemma split_at_dot:
  "CHR ''.'' \<in> set parts \<Longrightarrow>
     parts = takeWhile (\<lambda>ch. ch \<noteq> CHR ''.'') parts @ ''.'' @
             tl (dropWhile (\<lambda>ch. ch \<noteq> CHR ''.'') parts)"
proof -
  assume a: "CHR ''.'' \<in> set parts"
  let ?d = "dropWhile (\<lambda>ch. ch \<noteq> CHR ''.'') parts"
  have ne: "?d \<noteq> []" using a by (simp add: dropWhile_eq_Nil_conv) 
  then have "hd ?d = CHR ''.''" using hd_dropWhile[of "\<lambda>ch. ch \<noteq> CHR ''.''" parts] by simp
  then have "?d = ''.'' @ tl ?d" using ne by (cases ?d) simp_all
  moreover have "parts = takeWhile (\<lambda>ch. ch \<noteq> CHR ''.'') parts @ ?d" by simp
  ultimately show ?thesis by metis
qed


text \<open>
  What the gate does guarantee, whatever the error and the state of the database: either
  the function returns \<open>False\<close> and has given no statement to \<open>conn.execute\<close>, or the
  message contains \<open>no such column: \<close> followed, after white space and quoting characters
  at most, by two words around a dot, each made of alphanumeric characters and underscores
  only, and the only statement that can have been executed is the \<open>ALTER TABLE\<close> with these
  two words. Nothing here says that the words are not empty.
\<close>

lemma schema_repair_gating:
  assumes "try_repair_collection_schema env error = (result, statements)"
  shows "(result = Inr False \<and> statements = []) \<or>
         (\<exists>before quoting table_name column_name rest.
            str_of_exn error =
              before @ ''no such column: '' @ quoting @ table_name @ ''.'' @ column_name @ rest \<and>
            (\<forall>ch \<in> set quoting. isspace ch \<or> ch \<in> set ''\"`[]'') \<and>
            (rest = [] \<or> isspace (hd rest) \<or> hd rest \<in> set ''\"`[]'') \<and>
            (\<forall>ch \<in> set table_name. isalnum ch \<or> ch = CHR ''_'') \<and>
            (\<forall>ch \<in> set column_name. isalnum ch \<or> ch = CHR ''_'') \<and>
            (statements = [] \<or>
             statements =
               [''ALTER TABLE '' @ table_name @ '' ADD COLUMN '' @ column_name @ '' TEXT'']))"
proof (cases "result = Inr False \<and> statements = []")
  case True
  then show ?thesis by blast
next
  case False
  let ?msg = "str_of_exn error"
  have nf: "try_repair_collection_schema env error \<noteq> (Inr False, [])"
    using assms False by auto
  have has: "contains ?msg missing_prefix"
  proof (rule ccontr)
    assume "\<not> contains ?msg missing_prefix"
    then have "try_repair_collection_schema env error = (Inr False, [])"
      by (simp add: try_repair_collection_schema_def)
    with nf show False by contradiction
  qed
  obtain after where after: "after_first missing_prefix ?msg = Some after"
  proof (cases "after_first missing_prefix ?msg")
    case None
    then have "try_repair_collection_schema env error = (Inr False, [])"
      using has by (simp add: try_repair_collection_schema_def)
    with nf show ?thesis by contradiction
  next
    case (Some x)
    then show ?thesis by (rule that)
  qed
  obtain tok toks where toks: "split after = tok # toks"
  proof (cases "split after")
    case Nil
    then have "try_repair_collection_schema env error = (Inr False, [])"
      using has after by (simp add: try_repair_collection_schema_def)
    with nf show ?thesis by contradiction
  next
    case (Cons x xs)
    then show ?thesis by (rule that)
  qed
  let ?parts = "strip quote_chars tok"
  let ?t = "takeWhile (\<lambda>ch. ch \<noteq> CHR ''.'') ?parts"
  let ?c = "tl (dropWhile (\<lambda>ch. ch \<noteq> CHR ''.'') ?parts)"
  have dot: "CHR ''.'' \<in> set ?parts"
  proof (rule ccontr)
    assume "CHR ''.'' \<notin> set ?parts"
    then have "try_repair_collection_schema env error = (Inr False, [])"
      using has after toks by (simp add: try_repair_collection_schema_def)
    with nf show False by contradiction
  qed
  have safe: "filter safe_char ?t = ?t \<and> filter safe_char ?c = ?c"
  proof (rule ccontr)
    assume "\<not> (filter safe_char ?t = ?t \<and> filter safe_char ?c = ?c)"
    then have "try_repair_collection_schema env error = (Inr False, [])"
      using has after toks dot by (simp add: try_repair_collection_schema_def Let_def)
    with nf show False by contradiction
  qed
  have "try_repair_collection_schema env error = add_column env ?t ?c"
    using has after toks dot safe by (simp add: try_repair_collection_schema_def Let_def)
  then have run: "add_column env ?t ?c = (result, statements)" using assms by simp
  have st: "\<forall>ch \<in> set ?t. isalnum ch \<or> ch = CHR ''_''"
    using safe by (simp add: filter_id_conv safe_char_def)
  have sc: "\<forall>ch \<in> set ?c. isalnum ch \<or> ch = CHR ''_''"
    using safe by (simp add: filter_id_conv safe_char_def)
  have stmts: "statements = [] \<or>
               statements = [''ALTER TABLE '' @ ?t @ '' ADD COLUMN '' @ ?c @ '' TEXT'']"
    using run
    by (auto simp: add_column_def alter_statement_def Let_def split: if_splits option.splits)
  from after_first_decomp[OF after] obtain before where
    m1: "?msg = before @ missing_prefix @ after" by blast
  from split_first_decomp[OF toks] obtain ws post where
    m2: "after = ws @ tok @ post" and ws: "\<forall>c \<in> set ws. isspace c"
    and post: "post = [] \<or> isspace (hd post)" by blast
  from strip_decomp[of tok quote_chars] obtain l r where
    m3: "tok = l @ ?parts @ r" and l: "set l \<subseteq> set quote_chars" and r: "set r \<subseteq> set quote_chars"
    by blast
  have m4: "?parts = ?t @ ''.'' @ ?c" by (rule split_at_dot[OF dot])
  have "tok = l @ ?t @ ''.'' @ ?c @ r" using m3 m4 by (metis append.assoc)
  then have "?msg = before @ missing_prefix @ (ws @ l) @ ?t @ ''.'' @ ?c @ (r @ post)"
    using m1 m2 by simp
  then have msg: "?msg = before @ ''no such column: '' @ (ws @ l) @ ?t @ ''.'' @ ?c @ (r @ post)"
    by (simp only: missing_prefix_def)
  have q: "\<forall>ch \<in> set (ws @ l). isspace ch \<or> ch \<in> set ''\"`[]''"
    using ws l by (auto simp: quote_chars_def)
  have e: "r @ post = [] \<or> isspace (hd (r @ post)) \<or> hd (r @ post) \<in> set ''\"`[]''"
  proof (cases r)
    case Nil
    then show ?thesis using post by auto
  next
    case (Cons a as)
    then have "a \<in> set quote_chars" using r by simp
    then show ?thesis using Cons by (simp add: quote_chars_def)
  qed
  from msg q e st sc stmts show ?thesis by blast
qed

text \<open>Messages that execute nothing, and a quoted name.\<close>

lemma repair_other_error:
  "try_repair_collection_schema demo_env (OperationalError ''no such table: collections'') =
     (Inr False, [])"
  by code_simp

lemma repair_unsafe_column:
  "try_repair_collection_schema demo_env
     (OperationalError ''no such column: collections.topic;DROP'') = (Inr False, [])"
  by code_simp

lemma repair_no_table:
  "try_repair_collection_schema demo_env (OperationalError ''no such column: topic'') =
     (Inr False, [])"
  by code_simp

lemma repair_quoted_name:
  "try_repair_collection_schema demo_env
     (OperationalError ''no such column: \"collections.topic\"'') =
     (Inr True, [''ALTER TABLE collections ADD COLUMN topic TEXT''])"
  by code_simp

text \<open>
  Claim C4. The comparison \<open>safe_column != column_name\<close> accepts the empty name. The
  message \<open>no such column: collections.\<close> has no column name after the dot, so it does
  not hold the pattern \<open>table.column\<close>; yet with a database that accepts the statement the
  function executes \<open>ALTER TABLE collections ADD COLUMN  TEXT\<close>, which SQLite reads as a new
  column called \<open>TEXT\<close>, and returns \<open>True\<close>.
\<close>

theorem schema_repair_empty_column:
  "try_repair_collection_schema demo_env (OperationalError ''no such column: collections.'') =
     (Inr True, [''ALTER TABLE collections ADD COLUMN  TEXT''])"
  by code_simp

theorem schema_repair_empty_column_witness:
  "snd (try_repair_collection_schema demo_env (OperationalError ''no such column: collections.'')) =
     [''ALTER TABLE collections ADD COLUMN  TEXT'']"
  using schema_repair_empty_column by simp
section \<open>Vector index store: the ids of added documents\<close>

text \<open>The same function by cases on zero, which is how concrete numbers are evaluated.\<close>

lemma str_nat_code [code]:
  "str_nat 0 = ''0''"
  "str_nat (Suc n) =
     (if Suc n < 10 then [digit_char (Suc n)]
      else str_nat (Suc n div 10) @ [digit_char (Suc n mod 10)])"
  by (simp_all add: str_nat.simps[of 0] str_nat.simps[of "Suc n"] digit_char_def)













section \<open>Vector index store: the range of the relevance score\<close>

lemma match_count_le: "match_count query_terms content \<le> length query_terms"
  by (simp add: match_count_def)

lemma keyword_loop_scored:
  assumes "\<forall>doc \<in> set keyword_docs. keyword_scored doc"
  shows "\<forall>doc \<in> set (keyword_loop query_terms metadatas keyword_docs items). keyword_scored doc"
  using assms
proof (induction items arbitrary: keyword_docs)
  case Nil
  then show ?case by simp
next
  case (Cons item rest)
  obtain i content where item: "item = (i, content)" by (cases item)
  show ?case
  proof (cases "0 < match_count query_terms content")
    case False
    then show ?thesis using Cons item by simp
  next
    case True
    let ?lookup = "case metadatas of None \<Rightarrow> Inr []
                   | Some mds \<Rightarrow> if mds = [] then Inr [] else py_index mds (int i)"
    show ?thesis
    proof (cases ?lookup)
      case (Inl e)
      then show ?thesis using Cons.prems item True by simp
    next
      case (Inr md)
      let ?x = "real (match_count query_terms content) / real (length query_terms)"
      let ?doc = "\<lparr>page_content = content,
                    metadata = AList.update ''relevance_score'' (VFloat ?x) md\<rparr>"
      have pos: "0 < length query_terms" using True match_count_le[of query_terms content] by linarith
      have "0 < ?x" using True pos by simp
      moreover have "?x \<le> 1" using match_count_le[of query_terms content] pos by simp
      ultimately have "keyword_scored ?doc" unfolding keyword_scored_def by (simp add: update_conv')
      then have "\<forall>doc \<in> set (keyword_docs @ [?doc]). keyword_scored doc"
        using Cons.prems by simp
      from Cons.IH[OF this] show ?thesis using item True Inr by simp
    qed
  qed
qed

text \<open>
  The keyword branch of \<open>hybrid_search\<close> scores a document with the share of the query
  terms that it contains, which is in \<open>(0, 1]\<close>.
\<close>

lemma keyword_branch_range:
  "\<forall>doc \<in> set (hybrid_search_keyword_docs self query collection_name fs). keyword_scored doc"
proof
  fix doc
  assume doc: "doc \<in> set (hybrid_search_keyword_docs self query collection_name fs)"
  show "keyword_scored doc"
  proof (cases "initialize_collection self collection_name")
    case (Inl e)
    then show ?thesis using doc by (simp add: hybrid_search_keyword_docs_def)
  next
    case (Inr collection)
    show ?thesis
    proof (cases "collection_get self collection (keyword_where fs)")
      case failed: (Inl e)
      then show ?thesis using doc Inr by (simp add: hybrid_search_keyword_docs_def)
    next
      case got: (Inr result)
      show ?thesis
      proof (cases "got_documents result")
        case None
        then show ?thesis using doc Inr got by (simp add: hybrid_search_keyword_docs_def)
      next
        case (Some contents)
        then have "doc \<in> set (keyword_loop (remdups (split (lower query))) (got_metadatas result) []
                      (enumerate 0 contents))"
          using doc Inr got by (simp add: hybrid_search_keyword_docs_def)
        moreover have "\<forall>doc \<in> set (keyword_loop (remdups (split (lower query)))
                      (got_metadatas result) [] (enumerate 0 contents)). keyword_scored doc"
          by (rule keyword_loop_scored) simp
        ultimately show ?thesis by blast
      qed
    qed
  qed
qed

text \<open>
  The vector branch stores \<open>1.0 - (distance / 2.0)\<close> for the distance at the same position
  of the result, under the comment \<open>Convert distance to relevance (0-1)\<close>, and takes the
  distance as the engine reports it.
\<close>

lemma annotate_relevance:
  assumes "annotate result row i = Inr doc"
  shows "\<exists>distance. first_row_item (res_distances result) i 1 = Inr distance \<and>
           map_of (metadata doc) ''relevance_score'' = Some (VFloat (1 - distance / 2))"
proof -
  from assms obtain content where c: "py_index row i = Inr content"
    by (cases "py_index row i") (simp_all add: annotate_def)
  from assms c obtain md where md: "first_row_item (res_metadatas result) i [] = Inr md"
    by (cases "first_row_item (res_metadatas result) i []") (simp_all add: annotate_def)
  from assms c md obtain distance where
    d: "first_row_item (res_distances result) i 1 = Inr distance"
    by (cases "first_row_item (res_distances result) i 1") (simp_all add: annotate_def)
  from assms c md d have
    "doc = \<lparr>page_content = content,
            metadata = AList.update ''relevance_score'' (VFloat (1 - distance / 2)) md\<rparr>"
    by (simp add: annotate_def)
  then have "map_of (metadata doc) ''relevance_score'' = Some (VFloat (1 - distance / 2))"
    by (simp add: update_conv')
  with d show ?thesis by blast
qed

text \<open>
  Claim C3. The collections are created without a distance metric, so the engine reports
  squared Euclidean distances, which reach \<open>4\<close> between unit vectors. For an answer with
  the distances \<open>0.4\<close>, \<open>1\<close> and \<open>3\<close>, \<open>search_documents\<close> returns the third document
  with the relevance score \<open>-0.5\<close>, outside \<open>[0, 1]\<close>.
\<close>

theorem relevance_score_below_zero:
  "search_documents corpus_store ''python'' ''learning_resources'' None 5 0 =
     Inr [\<lparr>page_content = ''Python loops and functions'',
            metadata = [(''topic'', VStr ''python''), (''relevance_score'', VFloat (4 / 5))]\<rparr>,
          \<lparr>page_content = ''Variables in Python'',
            metadata = [(''relevance_score'', VFloat (1 / 2))]\<rparr>,
          \<lparr>page_content = ''JavaScript closures'',
            metadata = [(''relevance_score'', VFloat (- (1 / 2)))]\<rparr>] \<and>
   \<not> (0 \<le> (- (1 / 2) :: real))"
  by code_simp

theorem relevance_score_below_zero_witness:
  "\<exists>docs. search_documents corpus_store ''python'' ''learning_resources'' None 5 0 = Inr docs \<and>
      map_of (metadata (last docs)) ''relevance_score'' = Some (VFloat (- (1 / 2)))"
  using relevance_score_below_zero by simp
section \<open>Context compressor: what compression keeps\<close>

lemma compress_loop_map:
  "compress_loop self query compressed_docs docs =
     compressed_docs @ map (compress_document self query) docs"
  by (induction docs arbitrary: compressed_docs) simp_all

lemma compress_map: "compress self query docs = map (compress_document self query) docs \<or> compress self query docs = docs"
  by (simp add: compress_def compress_loop_map)

lemma compress_length: "length (compress self query docs) = length docs"
  by (simp add: compress_def compress_loop_map)

lemma compress_nth:
  "i < length docs \<Longrightarrow>
     compress self query docs ! i = docs ! i \<or>
     compress self query docs ! i = compress_document self query (docs ! i)"
  by (simp add: compress_def compress_loop_map)

lemma compress_short:
  "i < length docs \<Longrightarrow> length (page_content (docs ! i)) div 4 < 100 \<Longrightarrow>
     compress self query docs ! i = docs ! i"
  by (simp add: compress_def compress_loop_map compress_document_def)

lemma compress_document_content:
  "page_content (compress_document self query doc) = page_content doc \<or>
   page_content (compress_document self query doc) = compress_single self query (page_content doc)"
  by (simp add: compress_document_def Let_def)


lemma compress_single_cases:
  "compress_single self query content = content \<or>
   (\<exists>client choices text.
      cc_client self = Some client \<and>
      client (cc_model self) (compress_messages query content) (1 / 10) (cc_max_tokens self) =
        Inr (Some text # choices) \<and>
      compress_single self query content = strip_space text)"
proof (cases "cc_client self")
  case None
  then show ?thesis by (simp add: compress_single_def compress_single_body_def)
next
  case (Some client)
  show ?thesis
  proof (cases "client (cc_model self) (compress_messages query content) (1 / 10) (cc_max_tokens self)")
    case (Inl e)
    then show ?thesis using Some by (simp add: compress_single_def compress_single_body_def)
  next
    case (Inr choices)
    show ?thesis
    proof (cases choices)
      case Nil
      then show ?thesis using Some Inr by (simp add: compress_single_def compress_single_body_def)
    next
      case (Cons choice rest)
      show ?thesis
      proof (cases choice)
        case None
        then show ?thesis using Some Inr Cons
          by (simp add: compress_single_def compress_single_body_def)
      next
        case content_text: (Some answer)
        show ?thesis
        proof (cases "length (strip_space answer) < 50")
          case True
          then show ?thesis using Some Inr Cons content_text
            by (simp add: compress_single_def compress_single_body_def)
        next
          case False
          then have "compress_single self query content = strip_space answer"
            using Some Inr Cons content_text by (simp add: compress_single_def compress_single_body_def)
          then show ?thesis using Some Inr Cons content_text by blast
        qed
      qed
    qed
  qed
qed

lemma compress_single_failed:
  "cc_client self = Some client \<Longrightarrow>
   client (cc_model self) (compress_messages query content) (1 / 10) (cc_max_tokens self) = Inl e \<Longrightarrow>
   compress_single self query content = content"
  by (simp add: compress_single_def compress_single_body_def)

text \<open>
  Claim C10, as the code has it. \<open>compress\<close> returns as many documents as it was given,
  and the document at position \<open>i\<close> of the output is made from the document at position
  \<open>i\<close> of the input. A document of fewer than 100 estimated tokens is returned as it is.
  A document whose compression call raises keeps its content. The content of an output
  document is that of the input document or the stripped answer of the service to the
  request for that document.
\<close>

theorem compress_keeps_documents:
  "length (compress self query docs) = length docs \<and>
   (\<forall>i < length docs.
      (length (page_content (docs ! i)) div 4 < 100 \<longrightarrow>
         compress self query docs ! i = docs ! i) \<and>
      (\<forall>client e.
         cc_client self = Some client \<and>
         client (cc_model self) (compress_messages query (page_content (docs ! i))) (1 / 10)
           (cc_max_tokens self) = Inl e
           \<longrightarrow> page_content (compress self query docs ! i) = page_content (docs ! i)) \<and>
      (page_content (compress self query docs ! i) = page_content (docs ! i) \<or>
       (\<exists>client choices text.
          cc_client self = Some client \<and>
          client (cc_model self) (compress_messages query (page_content (docs ! i))) (1 / 10)
            (cc_max_tokens self) = Inr (Some text # choices) \<and>
          page_content (compress self query docs ! i) = strip_space text)))"
proof (intro conjI allI impI)
  show "length (compress self query docs) = length docs" by (rule compress_length)
next
  fix i assume "i < length docs" "length (page_content (docs ! i)) div 4 < 100"
  then show "compress self query docs ! i = docs ! i" by (rule compress_short)
next
  fix i client e
  assume i: "i < length docs"
    and f: "cc_client self = Some client \<and>
         client (cc_model self) (compress_messages query (page_content (docs ! i))) (1 / 10)
           (cc_max_tokens self) = Inl e"
  from f have "compress_single self query (page_content (docs ! i)) = page_content (docs ! i)"
    by (auto intro: compress_single_failed)
  then have "page_content (compress_document self query (docs ! i)) = page_content (docs ! i)"
    using compress_document_content[of self query "docs ! i"] by auto
  then show "page_content (compress self query docs ! i) = page_content (docs ! i)"
    using compress_nth[OF i, of self query] by auto
next
  fix i assume i: "i < length docs"
  let ?doc = "docs ! i"
  let ?out = "compress self query docs ! i"
  let ?alt = "\<exists>client choices text.
          cc_client self = Some client \<and>
          client (cc_model self) (compress_messages query (page_content ?doc)) (1 / 10)
            (cc_max_tokens self) = Inr (Some text # choices) \<and>
          page_content ?out = strip_space text"
  show "page_content ?out = page_content ?doc \<or> ?alt"
  proof (cases "page_content ?out = page_content ?doc")
    case True
    then show ?thesis by blast
  next
    case False
    then have "?out = compress_document self query ?doc"
      using compress_nth[OF i, of self query] by auto
    moreover from this False have
      "page_content ?out = compress_single self query (page_content ?doc)"
      using compress_document_content[of self query ?doc] by auto
    moreover from this False have "compress_single self query (page_content ?doc) \<noteq> page_content ?doc"
      by auto
    ultimately have ?alt
      using compress_single_cases[of self query "page_content ?doc"] by auto
    then show ?thesis by blast
  qed
qed


theorem compress_keeps_documents_witness:
  "length (compress (demo_compressor failing_client) ''python loops'' demo_documents) =
     length demo_documents \<and>
   compress (demo_compressor failing_client) ''python loops'' demo_documents ! 1 =
     demo_documents ! 1 \<and>
   page_content (compress (demo_compressor failing_client) ''python loops'' demo_documents ! 0) =
     page_content (demo_documents ! 0)"
proof -
  let ?C = "demo_compressor failing_client"
  note t = compress_keeps_documents[of ?C "''python loops''" demo_documents]
  from t have len: "length (compress ?C ''python loops'' demo_documents) = length demo_documents"
    by (rule conjunct1)
  have i0: "0 < length demo_documents" and i1: "1 < length demo_documents"
    by (simp_all add: demo_documents_def)
  have short: "length (page_content (demo_documents ! 1)) div 4 < 100"
    by (simp add: demo_documents_def)
  from t i1 short have one: "compress ?C ''python loops'' demo_documents ! 1 = demo_documents ! 1"
    by blast
  have failed: "cc_client ?C = Some failing_client \<and>
      failing_client (cc_model ?C) (compress_messages ''python loops'' (page_content (demo_documents ! 0)))
        (1 / 10) (cc_max_tokens ?C) = Inl (Exception ''Request timed out.'')"
    by (simp add: demo_compressor_def failing_client_def)
  from t i0 failed have zero:
    "page_content (compress ?C ''python loops'' demo_documents ! 0) = page_content (demo_documents ! 0)"
    by blast
  from len one zero show ?thesis by blast
qed

text \<open>
  The claim as stated fails for a document whose compression call fails:
  \<open>_compress_single\<close> catches the error and returns the original content, and \<open>compress\<close>
  builds a new document from it, whose metadata says \<open>compressed: True\<close>. The document
  returned is not the document given.
\<close>

theorem compress_failure_rewraps_counterexample:
  "compress (demo_compressor failing_client) ''python loops''
     [\<lparr>page_content = long_text, metadata = [(''topic'', VStr ''python'')]\<rparr>] =
   [\<lparr>page_content = long_text,
      metadata = [(''topic'', VStr ''python''), (''compressed'', VBool True),
                  (''original_length'', VInt 592), (''compressed_length'', VInt 592)]\<rparr>] \<and>
   \<lparr>page_content = long_text,
      metadata = [(''topic'', VStr ''python''), (''compressed'', VBool True),
                  (''original_length'', VInt 592), (''compressed_length'', VInt 592)]\<rparr> \<noteq>
   \<lparr>page_content = long_text, metadata = [(''topic'', VStr ''python'')]\<rparr>"
  by code_simp

text \<open>A call that succeeds.\<close>

lemma compress_example:
  "compress (demo_compressor extracting_client) ''python loops'' demo_documents =
   [\<lparr>page_content =
        ''Python loops repeat a block of code. Python loops repeat a block of code.'',
      metadata = [(''topic'', VStr ''python''), (''compressed'', VBool True),
                  (''original_length'', VInt 592), (''compressed_length'', VInt 73)]\<rparr>,
    \<lparr>page_content = ''Variables in Python'', metadata = []\<rparr>]"
  by code_simp

section \<open>Cosine similarity: the boundary cases\<close>

subsection \<open>Rounding never goes below a power of two that the argument reaches\<close>

lemma nearest_even_ge: "of_int N \<le> m \<Longrightarrow> N \<le> nearest_even m"
proof -
  assume "of_int N \<le> m"
  then have "N \<le> \<lfloor>m\<rfloor>" by (simp add: le_floor_iff)
  then show ?thesis by (simp add: nearest_even_def Let_def)
qed

lemma two_powr_int: "0 \<le> j \<Longrightarrow> (2::real) powr of_int j = of_int (2 ^ nat j)"
  by (simp add: powr_realpow[symmetric])

lemma binary64_ge:
  assumes k: "- 1074 \<le> k" and x: "2 powr of_int k \<le> x"
  shows "2 powr of_int k \<le> binary64 x"
proof -
  have pos: "0 < x" using x by (smt (verit) powr_gt_zero)
  define L where "L = \<lfloor>log 2 \<bar>x\<bar>\<rfloor>"
  define e where "e = max (L - 52) (- 1074)"
  define n where "n = nearest_even (x / 2 powr of_int e)"
  have b: "binary64 x = of_int n * 2 powr of_int e"
    using pos by (simp add: binary64_def Let_def L_def e_def n_def)
  have "of_int L \<le> log 2 x" using pos by (simp add: L_def)
  then have xL: "2 powr of_int L \<le> x" using pos by (simp add: le_log_iff)
  show ?thesis
  proof (cases "e \<le> k")
    case True
    have "(2::real) powr of_int (k - e) * 2 powr of_int e = 2 powr of_int k"
      by (simp add: powr_add[symmetric])
    then have "2 powr of_int (k - e) \<le> x / 2 powr of_int e"
      using x by (simp add: pos_le_divide_eq)
    then have "of_int (2 ^ nat (k - e)) \<le> x / 2 powr of_int e"
      using True two_powr_int[of "k - e"] by simp
    then have "2 ^ nat (k - e) \<le> n" unfolding n_def by (rule nearest_even_ge)
    then have "(of_int (2 ^ nat (k - e)) :: real) \<le> of_int n" by (simp only: of_int_le_iff)
    then have "(2::real) powr of_int (k - e) \<le> of_int n"
      using True two_powr_int[of "k - e"] by simp
    then have "(2::real) powr of_int (k - e) * 2 powr of_int e \<le> of_int n * 2 powr of_int e"
      by (simp add: mult_right_mono)
    then show ?thesis using b by (simp add: powr_add[symmetric])
  next
    case False
    then have ek: "k < e" by simp
    then have "e = L - 52" using k by (simp add: e_def max_def split: if_splits)
    then have "e \<le> L" by simp
    then have "(2::real) powr of_int e \<le> 2 powr of_int L" by simp
    from this xL have "2 powr of_int e \<le> x" by (rule order_trans)
    then have "of_int 1 \<le> x / 2 powr of_int e" by (simp add: pos_le_divide_eq)
    then have "1 \<le> n" unfolding n_def by (rule nearest_even_ge)
    then have "(1::real) \<le> of_int n" by simp
    then have "1 * (2::real) powr of_int e \<le> of_int n * 2 powr of_int e"
      by (intro mult_right_mono) simp_all
    then have ge: "(2::real) powr of_int e \<le> of_int n * 2 powr of_int e" by simp
    have "(2::real) powr of_int k \<le> 2 powr of_int e" using ek by simp
    from this ge have "(2::real) powr of_int k \<le> of_int n * 2 powr of_int e" by (rule order_trans)
    then show ?thesis by (simp only: b)
  qed
qed

lemma round64_ge:
  assumes "- 1074 \<le> k" and "2 powr of_int k \<le> x"
  shows "(\<exists>y. round64 x = Finite y \<and> 2 powr of_int k \<le> y) \<or> round64 x = Infinite True"
proof -
  have pos: "0 < x" using assms(2) by (smt (verit) powr_gt_zero)
  from binary64_ge[OF assms] pos show ?thesis by (simp add: round64_def Let_def)
qed

lemma float64_multiple_pos:
  assumes "float64_multiple (Finite x)" and "0 < x"
  shows "2 powr of_int (- 1074) \<le> x"
proof -
  define c :: real where "c = 2 ^ 1074"
  have cpos: "0 < c" by (simp only: c_def zero_less_power zero_less_numeral)
  define m where "m = \<lfloor>x * c\<rfloor>"
  from assms(1) have eq: "of_int m = x * c" by (simp only: float64_multiple.simps c_def m_def)
  have "0 < x * c" using assms(2) cpos by simp
  then have "(0::real) < of_int m" by (simp only: eq)
  then have "1 \<le> m" by linarith
  then have "(1::real) \<le> of_int m" by linarith
  then have "1 \<le> x * c" by (simp only: eq)
  then have "1 / c \<le> x" using cpos by (simp add: pos_divide_le_eq)
  moreover have "(2::real) powr of_int (- 1074) = 1 / c"
    unfolding c_def by (simp only: powr_minus_divide of_int_minus powr_realpow[symmetric] of_int_numeral of_nat_numeral zero_less_numeral)
  ultimately show ?thesis by simp
qed

subsection \<open>The divisor in double precision\<close>

text \<open>
  A non-zero dot product of a vector with itself is at least \<open>2^-1074\<close>, so a non-zero
  norm is at least \<open>2^-537\<close>, and the product of two non-zero norms is at least
  \<open>2^-1074\<close> before rounding and after it.
\<close>

lemma round64_zero: "round64 0 = Finite 0"
  by (simp add: round64_def binary64_def)

lemma sqrt_least: "sqrt (2 powr of_int (- 1074)) = 2 powr of_int (- 537)"
proof -
  have "sqrt (2 powr of_int (- 1074)) = (2 powr of_int (- 1074)) powr (1 / 2)"
    by (simp add: powr_half_sqrt)
  also have "\<dots> = 2 powr (of_int (- 1074) * (1 / 2))" by (simp only: powr_powr)
  also have "\<dots> = 2 powr of_int (- 537)" by simp
  finally show ?thesis .
qed

lemma np_norm_value:
  assumes "float64_multiple (dot v v)"
  shows "norm_value (np_norm round64 dot v)"
proof (cases "dot v v")
  case (Finite x)
  consider "x < 0" | "x = 0" | "0 < x" by linarith
  then show ?thesis
  proof cases
    case 1
    then show ?thesis using Finite by (simp add: np_norm_def)
  next
    case 2
    then show ?thesis using Finite by (simp add: np_norm_def round64_zero)
  next
    case 3
    have "float64_multiple (Finite x)" using assms Finite by simp
    from float64_multiple_pos[OF this 3] have "2 powr of_int (- 1074) \<le> x" .
    then have "sqrt (2 powr of_int (- 1074)) \<le> sqrt x" by (simp only: real_sqrt_le_iff)
    then have "2 powr of_int (- 537) \<le> sqrt x" by (simp only: sqrt_least)
    from round64_ge[OF _ this] have
      "(\<exists>y. round64 (sqrt x) = Finite y \<and> 2 powr of_int (- 537) \<le> y) \<or>
       round64 (sqrt x) = Infinite True" by simp
    moreover have "np_norm round64 dot v = round64 (sqrt x)"
      using Finite 3 by (simp add: np_norm_def)
    ultimately show ?thesis by auto
  qed
next
  case (Infinite p)
  then show ?thesis by (simp add: np_norm_def)
next
  case NaN
  then show ?thesis by (simp add: np_norm_def)
qed

lemma least_product:
  fixes x y :: real
  assumes "2 powr of_int (- 537) \<le> x" and "2 powr of_int (- 537) \<le> y"
  shows "2 powr of_int (- 1074) \<le> x * y"
proof -
  have "(2::real) powr of_int (- 537) * 2 powr of_int (- 537) = 2 powr of_int (- 1074)"
    by (simp add: powr_add[symmetric])
  moreover have "0 \<le> x" using assms(1) powr_ge_zero[of 2 "of_int (- 537)"] by linarith
  then have "2 powr of_int (- 537) * 2 powr of_int (- 537) \<le> x * y"
    using assms by (intro mult_mono) simp_all
  ultimately show ?thesis by simp
qed

lemma fmul_norms_nonzero:
  assumes "norm_value a" and "norm_value b" and "a \<noteq> Finite 0" and "b \<noteq> Finite 0"
  shows "fmul round64 a b \<noteq> Finite 0"
proof (cases a)
  case fa: (Finite x)
  then have x: "2 powr of_int (- 537) \<le> x" using assms(1,3) by simp
  then have xpos: "0 < x" by (smt (verit) powr_gt_zero)
  show ?thesis
  proof (cases b)
    case fb: (Finite y)
    then have y: "2 powr of_int (- 537) \<le> y" using assms(2,4) by simp
    from round64_ge[OF _ least_product[OF x y]] have
      "(\<exists>z. round64 (x * y) = Finite z \<and> 2 powr of_int (- 1074) \<le> z) \<or>
       round64 (x * y) = Infinite True" by simp
    then have "round64 (x * y) \<noteq> Finite 0"
    proof
      assume "\<exists>z. round64 (x * y) = Finite z \<and> 2 powr of_int (- 1074) \<le> z"
      then obtain z where z: "round64 (x * y) = Finite z" and "2 powr of_int (- 1074) \<le> z"
        by blast
      then have "0 < z" by (smt (verit) powr_gt_zero)
      then show ?thesis using z by simp
    next
      assume "round64 (x * y) = Infinite True"
      then show ?thesis by simp
    qed
    then show ?thesis using fa fb by simp
  next
    case (Infinite q)
    then show ?thesis using fa xpos by simp
  next
    case NaN
    then show ?thesis using fa by simp
  qed
next
  case ia: (Infinite p)
  show ?thesis
  proof (cases b)
    case (Finite y)
    then show ?thesis using ia by simp
  next
    case (Infinite q)
    then show ?thesis using ia by simp
  next
    case NaN
    then show ?thesis using ia by simp
  qed
next
  case NaN
  then show ?thesis by simp
qed

lemma cosine_divisor_nonzero:
  assumes "float64_multiple (dot vec1 vec1)" and "float64_multiple (dot vec2 vec2)"
  shows "cosine_similarity round64 dot vec1 vec2 \<noteq> Inr Divided_by_zero"
proof (cases "np_norm round64 dot vec1 = Finite 0 \<or> np_norm round64 dot vec2 = Finite 0")
  case True
  then show ?thesis by (auto simp: cosine_similarity_def)
next
  case False
  then have "fmul round64 (np_norm round64 dot vec1) (np_norm round64 dot vec2) \<noteq> Finite 0"
    using fmul_norms_nonzero[OF np_norm_value[of dot vec1, OF assms(1)]
            np_norm_value[of dot vec2, OF assms(2)]] by simp
  then show ?thesis using False by (simp add: cosine_similarity_def np_divide_def Let_def)
qed

subsection \<open>Exact arithmetic\<close>

lemma np_dot_exact_acc:
  "foldl (\<lambda>acc (a, b). fadd Finite acc (Finite (a * b))) (Finite s) ps =
     Finite (s + (\<Sum>(a, b)\<leftarrow>ps. a * b))"
  by (induction ps arbitrary: s) (auto simp: algebra_simps)

lemma np_dot_self: "np_dot Finite v v = Finite (\<Sum>a\<leftarrow>v. a * a)"
proof -
  have "(\<Sum>(a, b)\<leftarrow>zip v v. a * b) = (\<Sum>a\<leftarrow>v. a * a)" by (induction v) simp_all
  then show ?thesis by (simp add: np_dot_def np_dot_exact_acc)
qed

lemma sum_squares_nonneg: "0 \<le> (\<Sum>a\<leftarrow>v. a * a)" for v :: "real list"
  by (induction v) simp_all

lemma sum_squares_pos: "\<exists>x \<in> set v. x \<noteq> 0 \<Longrightarrow> 0 < (\<Sum>a\<leftarrow>v. a * a)" for v :: "real list"
proof (induction v)
  case Nil
  then show ?case by simp
next
  case (Cons a v)
  show ?case
  proof (cases "a = 0")
    case True
    then show ?thesis using Cons by simp
  next
    case False
    then have "0 < a * a" by (auto simp: zero_less_mult_iff)
    then show ?thesis using sum_squares_nonneg[of v] by simp
  qed
qed

lemma cosine_exact_self:
  assumes "\<exists>x \<in> set v. x \<noteq> 0"
  shows "cosine_similarity Finite (np_dot Finite) v v = Inr (Float (Finite 1))"
proof -
  let ?s = "\<Sum>a\<leftarrow>v. a * a"
  have pos: "0 < ?s" by (rule sum_squares_pos[OF assms])
  then have n: "np_norm Finite (np_dot Finite) v = Finite (sqrt ?s)"
    by (simp add: np_norm_def np_dot_self)
  have nn: "sqrt ?s \<noteq> 0" using pos by simp
  have "sqrt ?s * sqrt ?s = ?s" using pos by simp
  then show ?thesis
    using pos nn by (simp add: cosine_similarity_def n np_dot_self np_divide_def)
qed

subsection \<open>The values of the sequential dot product\<close>

lemma binary64_multiple: "float64_multiple (Finite (binary64 x))"
proof (cases "x = 0")
  case True
  then show ?thesis by (simp add: binary64_def)
next
  case False
  define e where "e = max (\<lfloor>log 2 \<bar>x\<bar>\<rfloor> - 52) (- 1074)"
  define n where "n = nearest_even (x / 2 powr of_int e)"
  define c :: real where "c = 2 ^ 1074"
  have b: "binary64 x = of_int n * 2 powr of_int e"
    using False by (simp add: binary64_def Let_def e_def n_def)
  have e: "0 \<le> e + 1074" by (simp add: e_def)
  have c: "c = 2 powr of_int 1074"
    unfolding c_def by (simp only: powr_realpow[symmetric] of_int_numeral of_nat_numeral zero_less_numeral)
  have "binary64 x * c = of_int n * (2 powr of_int e * 2 powr of_int 1074)"
    by (simp only: b c mult.assoc)
  also have "\<dots> = of_int n * 2 powr of_int (e + 1074)"
    by (simp only: powr_add[symmetric] of_int_add)
  also have "\<dots> = of_int n * of_int (2 ^ nat (e + 1074))"
    using e by (simp only: two_powr_int)
  also have "\<dots> = of_int (n * 2 ^ nat (e + 1074))" by (simp only: of_int_mult)
  finally have "binary64 x * c = of_int (n * 2 ^ nat (e + 1074))" .
  then have "of_int \<lfloor>binary64 x * c\<rfloor> = binary64 x * c" by (simp only: floor_of_int)
  then show ?thesis by (simp only: float64_multiple.simps c_def)
qed

lemma round64_multiple: "float64_multiple (round64 x)"
  using binary64_multiple[of x] by (simp add: round64_def Let_def del: float64_multiple.simps(1)) 

lemma fmul_multiple: "float64_multiple (fmul round64 a b)"
  by (cases a; cases b) (simp_all add: round64_multiple del: float64_multiple.simps(1))

lemma fadd_multiple: "float64_multiple (fadd round64 a b)"
  by (cases a; cases b) (simp_all add: round64_multiple del: float64_multiple.simps(1))

lemma np_dot_multiple: "float64_multiple (np_dot round64 v w)"
proof -
  have "float64_multiple acc \<Longrightarrow>
        float64_multiple
          (foldl (\<lambda>acc (a, b). fadd round64 acc (fmul round64 (Finite a) (Finite b))) acc ps)"
    for acc ps
    by (induction ps arbitrary: acc) (simp_all add: fadd_multiple split: prod.splits del: float64_multiple.simps(1))
  moreover have "float64_multiple (Finite 0)" by simp
  ultimately show ?thesis unfolding np_dot_def by blast
qed

subsection \<open>The boundary cases\<close>

text \<open>
  Claim C9, as the code has it. (1) Whatever the rounding and the dot product, two
  vectors of the same length of which one has the computed norm zero have similarity
  \<open>0.0\<close>, returned before the division. (2) In double precision, whatever the order in
  which the dot product adds, the division is never reached with a zero divisor: the
  product of two non-zero norms does not underflow to zero. (3) In exact arithmetic the
  similarity of a vector with a non-zero component to itself is 1.
\<close>

theorem cosine_similarity_boundary:
  "(length vec1 = length vec2 \<and>
    (np_norm rnd dot vec1 = Finite 0 \<or> np_norm rnd dot vec2 = Finite 0)
      \<longrightarrow> cosine_similarity rnd dot vec1 vec2 = Inr (Float (Finite 0))) \<and>
   (float64_multiple (dot vec1 vec1) \<and> float64_multiple (dot vec2 vec2)
      \<longrightarrow> cosine_similarity round64 dot vec1 vec2 \<noteq> Inr Divided_by_zero) \<and>
   ((\<exists>x \<in> set v. x \<noteq> 0)
      \<longrightarrow> cosine_similarity Finite (np_dot Finite) v v = Inr (Float (Finite 1)))"
proof (intro conjI impI)
  assume "length vec1 = length vec2 \<and>
    (np_norm rnd dot vec1 = Finite 0 \<or> np_norm rnd dot vec2 = Finite 0)"
  then show "cosine_similarity rnd dot vec1 vec2 = Inr (Float (Finite 0))"
    by (auto simp: cosine_similarity_def)
next
  assume "float64_multiple (dot vec1 vec1) \<and> float64_multiple (dot vec2 vec2)"
  then show "cosine_similarity round64 dot vec1 vec2 \<noteq> Inr Divided_by_zero"
    using cosine_divisor_nonzero[of dot vec1 vec2] by blast
next
  assume "\<exists>x \<in> set v. x \<noteq> 0"
  then show "cosine_similarity Finite (np_dot Finite) v v = Inr (Float (Finite 1))"
    by (rule cosine_exact_self)
qed

theorem cosine_similarity_boundary_witness:
  "cosine_similarity round64 (np_dot round64) [3, 4] [0, 0] = Inr (Float (Finite 0)) \<and>
   cosine_similarity round64 (np_dot round64) [3, 4] [0, 0] \<noteq> Inr Divided_by_zero \<and>
   cosine_similarity Finite (np_dot Finite) [3, 4] [3, 4] = Inr (Float (Finite 1))"
proof -
  have zero: "length [3, 4 :: real] = length [0, 0 :: real] \<and>
      (np_norm round64 (np_dot round64) [3, 4] = Finite 0 \<or>
       np_norm round64 (np_dot round64) [0, 0] = Finite 0)"
    by (simp add: np_norm_def np_dot_def round64_zero)
  have grid: "float64_multiple (np_dot round64 [3, 4] [3, 4]) \<and>
      float64_multiple (np_dot round64 [0, 0] [0, 0])"
    by (simp only: np_dot_multiple)
  have nonzero: "\<exists>x \<in> set [3, 4 :: real]. x \<noteq> 0" by simp
  from cosine_similarity_boundary[of "[3, 4]" "[0, 0]" round64 "np_dot round64" "[3, 4]"]
    zero grid nonzero
  show ?thesis by blast
qed

subsection \<open>Double precision at \<open>[1, 1]\<close>\<close>

lemma round64_one: "round64 1 = Finite 1"
  using binary64_near[of 0 1 "2 ^ 52"] by (simp add: round64_def powr_neg_numeral)

lemma round64_two: "round64 2 = Finite 2"
  using binary64_near[of 1 2 "2 ^ 52"] by (simp add: round64_def powr_neg_numeral)

lemma sqrt_two_bounds:
  "(6369051672525773 - 1 / 2) / 2 ^ 52 < sqrt 2" "sqrt 2 < (6369051672525773 + 1 / 2) / 2 ^ 52"
proof -
  have "((6369051672525773 - 1 / 2) / 2 ^ 52)\<^sup>2 < (2::real)" by (simp add: power2_eq_square)
  then show "(6369051672525773 - 1 / 2) / 2 ^ 52 < sqrt 2" by (rule real_less_rsqrt)
  have "(2::real) < ((6369051672525773 + 1 / 2) / 2 ^ 52)\<^sup>2" by (simp add: power2_eq_square)
  then show "sqrt 2 < (6369051672525773 + 1 / 2) / 2 ^ 52" by (intro real_less_lsqrt) simp_all
qed

lemma binary64_sqrt_two: "binary64 (sqrt 2) = 6369051672525773 / 2 ^ 52"
proof -
  have lo: "(1::real) \<le> sqrt 2" by simp
  have hi: "sqrt 2 < 2" using sqrt_two_bounds(2) by simp
  have up: "sqrt 2 * 2 ^ 52 - 6369051672525773 < 1 / 2"
    using sqrt_two_bounds(2) by (simp add: field_simps)
  have down: "- (1 / 2) < sqrt 2 * 2 ^ 52 - 6369051672525773"
    using sqrt_two_bounds(1) by (simp add: field_simps)
  have "\<bar>sqrt 2 * 2 ^ 52 - 6369051672525773\<bar> < 1 / 2"
    using up down by (simp only: abs_less_iff) simp
  then have near: "\<bar>sqrt 2 / 2 powr (of_int 0 - 52) - of_int 6369051672525773\<bar> < 1 / 2"
    by (simp add: powr_neg_numeral)
  from binary64_near[of 0 "sqrt 2" 6369051672525773] lo hi near show ?thesis
    by (simp add: powr_neg_numeral)
qed

lemma round64_sqrt_two: "round64 (sqrt 2) = Finite (6369051672525773 / 2 ^ 52)"
  by (simp add: round64_def binary64_sqrt_two)

lemma binary64_norm_product:
  "binary64 (6369051672525773 / 2 ^ 52 * (6369051672525773 / 2 ^ 52)) = 4503599627370497 / 2 ^ 51"
  using binary64_near[of 1 "6369051672525773 / 2 ^ 52 * (6369051672525773 / 2 ^ 52)" 4503599627370497]
  by (simp add: powr_neg_numeral)

lemma round64_norm_product:
  "round64 (6369051672525773 / 2 ^ 52 * (6369051672525773 / 2 ^ 52)) =
     Finite (4503599627370497 / 2 ^ 51)"
  unfolding round64_def binary64_norm_product by simp

lemma binary64_quotient:
  "binary64 (2 / (4503599627370497 / 2 ^ 51)) = 9007199254740990 / 2 ^ 53"
  using binary64_near[of "- 1" "2 / (4503599627370497 / 2 ^ 51)" 9007199254740990]
  by (simp add: powr_neg_numeral)

lemma round64_quotient:
  "round64 (2 / (4503599627370497 / 2 ^ 51)) = Finite (9007199254740990 / 2 ^ 53)"
  unfolding round64_def binary64_quotient by simp

lemma np_dot_ones: "np_dot round64 [1, 1] [1, 1] = Finite 2"
  by (simp add: np_dot_def round64_one round64_two)


text \<open>
  The claim as stated fails in double precision at \<open>v = [1, 1]\<close>: the dot product is 2,
  the norm is the double next to \<open>sqrt 2\<close>, the product of the two norms rounds to
  \<open>2 + 2^-51\<close>, and the quotient rounds to \<open>1 - 2^-52\<close>, which Python prints as
  \<open>0.9999999999999998\<close>.
\<close>

theorem cosine_similarity_rounds_counterexample:
  "cosine_similarity round64 (np_dot round64) [1, 1] [1, 1] =
     Inr (Float (Finite (9007199254740990 / 2 ^ 53))) \<and>
   (9007199254740990 / 2 ^ 53 :: real) \<noteq> 1"
proof
  have n: "np_norm round64 (np_dot round64) [1, 1] = Finite (6369051672525773 / 2 ^ 52)"
    by (simp add: np_norm_def np_dot_ones round64_sqrt_two)
  have p: "fmul round64 (Finite (6369051672525773 / 2 ^ 52)) (Finite (6369051672525773 / 2 ^ 52)) =
      Finite (4503599627370497 / 2 ^ 51)"
    by (simp only: fmul.simps round64_norm_product)
  have q: "fdiv round64 (Finite 2) (Finite (4503599627370497 / 2 ^ 51)) =
      Finite (9007199254740990 / 2 ^ 53)"
    by (simp only: fdiv.simps round64_quotient)
  have nz: "Finite (6369051672525773 / 2 ^ 52) \<noteq> Finite 0"
    and dz: "Finite (4503599627370497 / 2 ^ 51) \<noteq> Finite 0" by simp_all
  have "cosine_similarity round64 (np_dot round64) [1, 1] [1, 1] =
      Inr (np_divide round64 (Finite 2) (Finite (4503599627370497 / 2 ^ 51)))"
    unfolding cosine_similarity_def Let_def n p np_dot_ones using nz by simp
  also have "\<dots> = Inr (Float (Finite (9007199254740990 / 2 ^ 53)))"
    unfolding np_divide_def q using dz by simp
  finally show "cosine_similarity round64 (np_dot round64) [1, 1] [1, 1] =
     Inr (Float (Finite (9007199254740990 / 2 ^ 53)))" .
  show "(9007199254740990 / 2 ^ 53 :: real) \<noteq> 1" by simp
qed

subsection \<open>Underflow and overflow\<close>

text \<open>
  Two more vectors with non-zero components whose similarity to themselves is not 1: the
  squares of \<open>2^-600\<close> underflow to zero, so the norm is zero and the result is \<open>0.0\<close>;
  the squares of \<open>2^600\<close> overflow, so dot product and norms are \<open>+inf\<close> and the result is
  NaN.
\<close>

lemma binary64_underflow:
  assumes "0 < x" and "x < 2 powr of_int (- 1075)"
  shows "binary64 x = 0"
proof -
  have "log 2 x < of_int (- 1075)" using assms by (simp add: log_less_iff)
  then have "\<lfloor>log 2 x\<rfloor> \<le> - 1075" by (simp add: floor_le_iff)
  then have le: "\<lfloor>log 2 x\<rfloor> - 52 \<le> - 1074" by linarith
  have ax: "\<bar>x\<bar> = x" using assms(1) by simp
  have e: "max (\<lfloor>log 2 \<bar>x\<bar>\<rfloor> - 52) (- 1074) = - 1074"
    unfolding ax using le by (rule max_absorb2)
  have "x / 2 powr of_int (- 1074) < 2 powr of_int (- 1075) / 2 powr of_int (- 1074)"
    using assms(2) by (simp only: divide_strict_right_mono powr_gt_zero)
  also have "\<dots> = 2 powr (of_int (- 1075) - of_int (- 1074))" by (simp only: powr_diff)
  also have "\<dots> = 1 / 2" by (simp add: powr_neg_one)
  finally have lt0: "x / 2 powr of_int (- 1074) < 1 / 2" .
  have ge0: "0 \<le> x / 2 powr of_int (- 1074)" using assms(1) by simp
  define z where "z = x / 2 powr of_int (- 1074)"
  have lt: "z < 1 / 2" and ge: "0 \<le> z" using lt0 ge0 by (simp_all only: z_def)
  have "\<lfloor>z\<rfloor> = 0" using lt ge by (intro floor_unique) simp_all
  then have "nearest_even z = 0" using lt by (simp add: nearest_even_def)
  then have "nearest_even (x / 2 powr of_int (- 1074)) = 0" by (simp only: z_def)
  then show ?thesis using assms(1) e by (simp add: binary64_def)
qed

lemma two_powr_numeral: "(2::real) ^ n = 2 powr of_int (int n)"
  by (simp add: powr_realpow)

lemma round64_tiny: "round64 (1 / 2 ^ 600 * (1 / 2 ^ 600)) = Finite 0"
proof -
  have "(1 / 2 ^ 600 * (1 / 2 ^ 600) :: real) = 1 / (2 ^ 600 * 2 ^ 600)"
    by (simp only: times_divide_times_eq mult_1)
  also have "\<dots> = 1 / 2 ^ (600 + 600)" by (simp only: power_add)
  also have "\<dots> = 1 / 2 powr of_int (int (600 + 600))" by (simp only: two_powr_numeral)
  also have "\<dots> = 2 powr (- of_int (int (600 + 600)))" by (simp only: powr_minus_divide)
  also have "\<dots> = 2 powr of_int (- 1200)" by simp
  finally have x: "(1 / 2 ^ 600 * (1 / 2 ^ 600) :: real) = 2 powr of_int (- 1200)" .
  have "(2::real) powr of_int (- 1200) < 2 powr of_int (- 1075)" by simp
  moreover have "(0::real) < 2 powr of_int (- 1200)" by simp
  ultimately have "binary64 (2 powr of_int (- 1200)) = 0" by (intro binary64_underflow)
  then have "round64 (2 powr of_int (- 1200)) = Finite 0" by (simp add: round64_def)
  then show ?thesis by (simp only: x)
qed

lemma cosine_underflow_example:
  "cosine_similarity round64 (np_dot round64) [1 / 2 ^ 600, 1 / 2 ^ 600] [1 / 2 ^ 600, 1 / 2 ^ 600] =
     Inr (Float (Finite 0))"
proof -
  have "np_dot round64 [1 / 2 ^ 600, 1 / 2 ^ 600] [1 / 2 ^ 600, 1 / 2 ^ 600] = Finite 0"
    by (simp only: np_dot_def zip_Cons_Cons zip_Nil foldl.simps prod.case fmul.simps fadd.simps
          round64_tiny round64_zero add_0)
  then have "np_norm round64 (np_dot round64) [1 / 2 ^ 600, 1 / 2 ^ 600] = Finite 0"
    by (simp add: np_norm_def round64_zero)
  then show ?thesis by (simp only: cosine_similarity_def Let_def simp_thms if_True if_False)
qed

lemma round64_huge: "round64 (2 ^ 600 * 2 ^ 600) = Infinite True"
proof -
  have "(2 ^ 600 * 2 ^ 600 :: real) = 2 ^ (600 + 600)" by (simp only: power_add)
  also have "\<dots> = 2 powr of_int (int (600 + 600))" by (simp only: two_powr_numeral)
  also have "\<dots> = 2 powr of_int 1200" by simp
  finally have x: "(2 ^ 600 * 2 ^ 600 :: real) = 2 powr of_int 1200" .
  have "\<bar>(2::real) powr of_int 1200 / 2 powr (of_int 1200 - 52) - of_int (2 ^ 52)\<bar> < 1 / 2"
    by (simp add: powr_diff powr_realpow[symmetric])
  from binary64_near[of 1200 "2 powr of_int 1200" "2 ^ 52", OF _ _ _ this]
  have "binary64 (2 powr of_int 1200) = of_int (2 ^ 52) * 2 powr (of_int 1200 - 52)" by simp
  also have "\<dots> = 2 powr of_int 1200" by (simp add: powr_diff powr_realpow[symmetric])
  finally have b: "binary64 (2 powr of_int 1200) = 2 powr of_int 1200" .
  have "(2::real) ^ 1024 = 2 powr of_int 1024"
    by (simp only: powr_realpow[symmetric] of_int_numeral of_nat_numeral zero_less_numeral)
  moreover have "(2::real) powr of_int 1024 \<le> 2 powr of_int 1200" by simp
  ultimately have "(2::real) ^ 1024 \<le> \<bar>2 powr of_int 1200\<bar>" by simp
  then show ?thesis unfolding x round64_def Let_def b by simp
qed

lemma cosine_overflow_example:
  "cosine_similarity round64 (np_dot round64) [2 ^ 600, 2 ^ 600] [2 ^ 600, 2 ^ 600] = Inr (Float NaN)"
proof -
  have d: "np_dot round64 [2 ^ 600, 2 ^ 600] [2 ^ 600, 2 ^ 600] = Infinite True"
    by (simp only: np_dot_def zip_Cons_Cons zip_Nil foldl.simps prod.case fmul.simps fadd.simps
          round64_huge simp_thms if_True)
  then have n: "np_norm round64 (np_dot round64) [2 ^ 600, 2 ^ 600] = Infinite True"
    by (simp only: np_norm_def fsqrt.simps if_True)
  show ?thesis unfolding cosine_similarity_def Let_def n d by (simp add: np_divide_def)
qed
end
